theory Spec2Isabelle
  imports Main "HOL-Library.Word"
begin

section \<open>The classification-list parser (ClassificationList.cpp, ClassificationList.h)\<close>

subsection \<open>Data model\<close>

type_synonym u8 = "8 word"
type_synonym u32 = "32 word"
type_synonym i32 = "32 word"

text \<open>
  \<^verbatim>\<open>struct PatchClassification\<close>: the constructor copies its three arguments into the
  three fields, so a record literal stands for a constructor call. Both numbers are
  \<^verbatim>\<open>uint32_t\<close>.
\<close>

record PatchClassification =
  subsampleNumber :: u32
  patchIndex :: u32
  classification :: string

text \<open>
  A \<^verbatim>\<open>std::istream\<close> over a character source: the characters not yet extracted and the
  two state bits the parser can observe. (\<^verbatim>\<open>badbit\<close>, a failure of the underlying
  device, is not modelled.) A stream converts to \<open>true\<close> in a condition when
  \<open>failbit\<close> is clear.
\<close>

record istream =
  rdbuf :: string
  eofbit :: bool
  failbit :: bool

definition good :: "istream \<Rightarrow> bool" where
  "good s \<longleftrightarrow> \<not> eofbit s \<and> \<not> failbit s"

text \<open>A freshly opened stream over the given characters.\<close>

definition istream_of :: "string \<Rightarrow> istream" where
  "istream_of cs = \<lparr>rdbuf = cs, eofbit = False, failbit = False\<rparr>"

text \<open>
  \<^verbatim>\<open>std::isspace\<close> in the classic locale: space, horizontal tab, line feed, vertical tab,
  form feed, carriage return. Both \<^verbatim>\<open>boost::trim_left\<close> and the formatted extraction
  of a \<^verbatim>\<open>char\<close> classify characters with it.
\<close>

definition isspace :: "char \<Rightarrow> bool" where
  "isspace c \<longleftrightarrow>
     c = CHR 0x20 \<or> c = CHR 0x09 \<or> c = CHR 0x0A \<or> c = CHR 0x0B \<or> c = CHR 0x0C \<or> c = CHR 0x0D"

definition trim_left :: "string \<Rightarrow> string" where
  "trim_left input = dropWhile isspace input"

text \<open>
  \<^verbatim>\<open>std::getline(stream, str, delim)\<close>. On a stream that is not good the sentry fails:
  \<open>failbit\<close> is set and \<open>str\<close> is left as it was. Otherwise \<open>str\<close> is replaced by
  the characters up to the delimiter, which is extracted and dropped; when the
  characters run out first, \<open>eofbit\<close> is set, and \<open>failbit\<close> too when nothing at all
  was extracted.
\<close>

definition getline :: "istream \<Rightarrow> string \<Rightarrow> char \<Rightarrow> istream \<times> string" where
  "getline s str delim =
     (if \<not> good s then (s\<lparr>failbit := True\<rparr>, str)
      else case dropWhile (\<lambda>c. c \<noteq> delim) (rdbuf s) of
             [] \<Rightarrow> (\<lparr>rdbuf = [], eofbit = True, failbit = (rdbuf s = [])\<rparr>, rdbuf s)
           | d # rest \<Rightarrow> (s\<lparr>rdbuf := rest\<rparr>, takeWhile (\<lambda>c. c \<noteq> delim) (rdbuf s)))"

text \<open>
  \<^verbatim>\<open>stream >> ch\<close> for a \<^verbatim>\<open>char\<close>, which is what a \<^verbatim>\<open>std::istream_iterator<char>\<close>
  runs to fetch its next value: leading whitespace is skipped (\<^verbatim>\<open>skipws\<close> is set on
  every stream unless cleared, and nothing clears it), then one character is
  extracted. \<open>None\<close> is a failed extraction, after which the iterator equals the
  end-of-stream iterator.
\<close>

definition extract_char :: "istream \<Rightarrow> istream \<times> char option" where
  "extract_char s =
     (if \<not> good s then (s\<lparr>failbit := True\<rparr>, None)
      else case dropWhile isspace (rdbuf s) of
             [] \<Rightarrow> (\<lparr>rdbuf = [], eofbit = True, failbit = True\<rparr>, None)
           | c # rest \<Rightarrow> (s\<lparr>rdbuf := rest\<rparr>, Some c))"

subsection \<open>Reading one subsample\<close>

text \<open>
  The \<^verbatim>\<open>while (iter != end)\<close> loop of \<^verbatim>\<open>SubsampleClassifications\<close>. The iterator is
  the value it holds (\<open>None\<close> for the end iterator); \<^verbatim>\<open>*iter++\<close> yields that value and
  fetches the next one from the stream before the loop body looks at the character.
  The arguments after the iterator are \<^verbatim>\<open>ssn\<close>, \<^verbatim>\<open>className\<close>, \<^verbatim>\<open>index\<close> and
  \<^verbatim>\<open>result\<close>.
\<close>

function SubsampleClassifications_loop ::
  "istream \<Rightarrow> char option \<Rightarrow> u32 \<Rightarrow> string \<Rightarrow> u32 \<Rightarrow> PatchClassification list
     \<Rightarrow> istream \<times> PatchClassification list" where
  "SubsampleClassifications_loop stream None ssn className index result = (stream, result)"
| "SubsampleClassifications_loop stream (Some nextChar) ssn className index result =
     (case extract_char stream of
        (stream', iter') \<Rightarrow>
          if nextChar = CHR '','' \<or> nextChar = CHR ''<'' then
            (let result' =
                   (if className \<noteq> []
                    then result @ [\<lparr>subsampleNumber = ssn, patchIndex = index,
                                    classification = className\<rparr>]
                    else result @ [\<lparr>subsampleNumber = ssn, patchIndex = index,
                                    classification = ''NONE''\<rparr>])
             in if nextChar = CHR ''<'' then (stream', result')
                else SubsampleClassifications_loop stream' iter' ssn [] (index + 1) result')
          else SubsampleClassifications_loop stream' iter' ssn (className @ [nextChar])
                 index result)"
  by pat_completeness auto
termination
proof (relation "measure (\<lambda>(stream, iter, ssn, className, index, result).
         length (rdbuf stream) + (case iter of None \<Rightarrow> 0 | Some c \<Rightarrow> 1))")
  have extract_less:
    "length (rdbuf stream') + (case iter' of None \<Rightarrow> 0 | Some c \<Rightarrow> 1) < length (rdbuf stream) + 1"
    if "(stream', iter') = extract_char stream" for stream stream' iter'
    using that length_dropWhile_le [of isspace "rdbuf stream"]
    by (auto simp: extract_char_def split: list.splits if_splits)
  {
    fix stream stream' :: istream and iter' :: "char option"
    fix nextChar :: char and ssn index :: u32 and className :: string
    fix result result' :: "PatchClassification list"
    assume "(stream', iter') = extract_char stream"
    then show "((stream', iter', ssn, [], index + 1, result'),
                stream, Some nextChar, ssn, className, index, result)
      \<in> measure (\<lambda>(stream, iter, ssn, className, index, result).
           length (rdbuf stream) + (case iter of None \<Rightarrow> 0 | Some c \<Rightarrow> 1))"
      using extract_less [of stream' iter' stream] by simp
  next
    fix stream stream' :: istream and iter' :: "char option"
    fix nextChar :: char and ssn index :: u32 and className :: string
    fix result :: "PatchClassification list"
    assume "(stream', iter') = extract_char stream"
    then show "((stream', iter', ssn, className @ [nextChar], index, result),
                stream, Some nextChar, ssn, className, index, result)
      \<in> measure (\<lambda>(stream, iter, ssn, className, index, result).
           length (rdbuf stream) + (case iter of None \<Rightarrow> 0 | Some c \<Rightarrow> 1))"
      using extract_less [of stream' iter' stream] by simp
  }
qed simp

text \<open>
  \<^verbatim>\<open>SubsampleClassifications(stream, ssn)\<close>: constructing the iterator already
  extracts the first character. The stream is passed by reference, so the model
  returns it next to the result.
\<close>

definition SubsampleClassifications ::
  "istream \<Rightarrow> u32 \<Rightarrow> istream \<times> PatchClassification list" where
  "SubsampleClassifications stream ssn =
     (case extract_char stream of
        (stream', iter) \<Rightarrow> SubsampleClassifications_loop stream' iter ssn [] 0 [])"

subsection \<open>Reading the whole stream\<close>

text \<open>
  The \<^verbatim>\<open>while (std::getline(stream,input,'>'))\<close> loop of the constructor, with the
  local variables \<^verbatim>\<open>input\<close> and \<^verbatim>\<open>ssn\<close> and the member \<^verbatim>\<open>classifications\<close> as
  arguments. The loop ends when \<^verbatim>\<open>getline\<close> leaves \<open>failbit\<close> set.
\<close>

function ClassificationList_loop ::
  "istream \<Rightarrow> string \<Rightarrow> u32 \<Rightarrow> PatchClassification list list
     \<Rightarrow> PatchClassification list list" where
  "ClassificationList_loop stream input ssn classifications =
     (case getline stream input (CHR ''>'') of
        (stream1, input1) \<Rightarrow>
          if failbit stream1 then classifications
          else if trim_left input1 = ''<CLASS'' then
            (case SubsampleClassifications stream1 (ssn + 1) of
               (stream2, result) \<Rightarrow>
                 ClassificationList_loop stream2 (trim_left input1) (ssn + 1)
                   (classifications @ [result]))
          else
            (case getline stream1 (trim_left input1) (CHR 0x0A) of
               (stream2, input2) \<Rightarrow>
                 ClassificationList_loop stream2 input2 ssn classifications))"
  by pat_completeness auto
termination
proof -
  have drop_less: "length ys < length xs" if "dropWhile P xs = y # ys"
    for P and xs :: string and y ys
    using that length_dropWhile_le [of P xs] by simp
  have getline_less: "length (rdbuf (fst (getline s i d))) < length (rdbuf s)"
    if "\<not> failbit (fst (getline s i d))" for s i d
    using that by (auto simp: getline_def split: list.splits if_splits dest: drop_less)
  have getline_le: "length (rdbuf (fst (getline s i d))) \<le> length (rdbuf s)" for s i d
    by (auto simp: getline_def split: list.splits if_splits dest!: drop_less)
  have extract_le: "length (rdbuf (fst (extract_char s))) \<le> length (rdbuf s)" for s
    by (auto simp: extract_char_def split: list.splits dest!: drop_less)
  have loop_le:
    "length (rdbuf (fst (SubsampleClassifications_loop s iter ssn cn idx res)))
       \<le> length (rdbuf s)" for s iter ssn cn idx res
  proof (induction s iter ssn cn idx res rule: SubsampleClassifications_loop.induct)
    case (1 stream ssn className index result)
    show ?case by simp
  next
    case (2 stream nextChar ssn className index result)
    obtain stream' iter' where e: "extract_char stream = (stream', iter')"
      by (cases "extract_char stream")
    from extract_le [of stream] e have "length (rdbuf stream') \<le> length (rdbuf stream)"
      by simp
    with 2 [OF e [symmetric]] e show ?case
      by (auto simp: Let_def intro: order_trans)
  qed
  have body_le:
    "length (rdbuf (fst (SubsampleClassifications s ssn))) \<le> length (rdbuf s)" for s ssn
  proof -
    obtain stream' iter' where e: "extract_char s = (stream', iter')"
      by (cases "extract_char s")
    from extract_le [of s] e have "length (rdbuf stream') \<le> length (rdbuf s)" by simp
    with loop_le [of stream' iter' ssn "[]" 0 "[]"] e show ?thesis
      by (simp add: SubsampleClassifications_def)
  qed
  show ?thesis
  proof (relation "measure (\<lambda>(stream, input, ssn, classifications). length (rdbuf stream))")
    show "wf (measure (\<lambda>(stream, input, ssn, classifications). length (rdbuf stream)))"
      by simp
  next
    fix stream stream1 stream2 :: istream and input input1 :: string and ssn :: u32
      and classifications :: "PatchClassification list list"
      and result :: "PatchClassification list"
    assume g: "(stream1, input1) = getline stream input (CHR ''>'')"
      and f: "\<not> failbit stream1"
      and b: "(stream2, result) = SubsampleClassifications stream1 (ssn + 1)"
    from g f getline_less [of stream input "CHR ''>''"]
    have "length (rdbuf stream1) < length (rdbuf stream)"
      by (cases "getline stream input (CHR ''>'')") simp
    moreover from b body_le [of stream1 "ssn + 1"]
    have "length (rdbuf stream2) \<le> length (rdbuf stream1)"
      by (cases "SubsampleClassifications stream1 (ssn + 1)") simp
    ultimately
    show "((stream2, trim_left input1, ssn + 1, classifications @ [result]),
           stream, input, ssn, classifications)
          \<in> measure (\<lambda>(stream, input, ssn, classifications). length (rdbuf stream))"
      by simp
  next
    fix stream stream1 stream2 :: istream and input input1 input2 :: string and ssn :: u32
      and classifications :: "PatchClassification list list"
    assume g: "(stream1, input1) = getline stream input (CHR ''>'')"
      and f: "\<not> failbit stream1"
      and l: "(stream2, input2) = getline stream1 (trim_left input1) (CHR 0x0A)"
    from g f getline_less [of stream input "CHR ''>''"]
    have "length (rdbuf stream1) < length (rdbuf stream)"
      by (cases "getline stream input (CHR ''>'')") simp
    moreover from l getline_le [of stream1 "trim_left input1" "CHR 0x0A"]
    have "length (rdbuf stream2) \<le> length (rdbuf stream1)"
      by (cases "getline stream1 (trim_left input1) (CHR 0x0A)") simp
    ultimately
    show "((stream2, input2, ssn, classifications), stream, input, ssn, classifications)
          \<in> measure (\<lambda>(stream, input, ssn, classifications). length (rdbuf stream))"
      by simp
  qed
qed

text \<open>
  The constructor \<^verbatim>\<open>ClassificationList(std::istream&)\<close>; its value is the member
  \<^verbatim>\<open>classifications\<close>, which \<^verbatim>\<open>Classifications()\<close> returns.
\<close>

definition ClassificationList :: "istream \<Rightarrow> PatchClassification list list" where
  "ClassificationList stream = ClassificationList_loop stream [] 0 []"

section \<open>The confusion matrix of \<^verbatim>\<open>PatchExtractor::WriteSort\<close> (PatchExtractor.cpp)\<close>

subsection \<open>The matrix\<close>

text \<open>
  Modelled from the spec: \<^verbatim>\<open>ISL::Math::Matrix<int32_t,2>\<close>, whose header
  \<^verbatim>\<open>ISL/Math/Matrix.h\<close> is not among the sources. The spec's confusion matrix is a
  square matrix of integer counts that starts all-zero; the code constructs it with
  the two dimensions \<open>(26,26)\<close>, reads them back with \<^verbatim>\<open>Dim1()\<close> and \<^verbatim>\<open>Dim2()\<close> and
  addresses a cell with \<^verbatim>\<open>conmatrix(i,j)\<close>. A cell is an \<^verbatim>\<open>int32_t\<close>: a 32-bit word
  read as two's complement by \<open>sint\<close>.
\<close>

record Matrix =
  Dim1 :: nat
  Dim2 :: nat
  cell :: "nat \<Rightarrow> nat \<Rightarrow> i32"

definition Matrix :: "nat \<Rightarrow> nat \<Rightarrow> Matrix" where
  "Matrix d1 d2 = \<lparr>Dim1 = d1, Dim2 = d2, cell = (\<lambda>i j. 0)\<rparr>"

text \<open>
  What a run of the code comes to: after undefined behaviour nothing is known about
  the run.
\<close>

datatype 'a outcome = Undefined_behaviour | Returns 'a

text \<open>
  \<^verbatim>\<open>++conmatrix(i,j)\<close>. Incrementing the largest \<^verbatim>\<open>int32_t\<close>, \<open>2^31 - 1\<close>, is a signed
  overflow, which is undefined behaviour in C++.
\<close>

definition increment :: "Matrix \<Rightarrow> u32 \<Rightarrow> u32 \<Rightarrow> Matrix outcome" where
  "increment conmatrix i j =
     (if cell conmatrix (unat i) (unat j) = 2147483647 then Undefined_behaviour
      else Returns (conmatrix\<lparr>cell := (cell conmatrix)
        (unat i := (cell conmatrix (unat i))
           (unat j := cell conmatrix (unat i) (unat j) + 1))\<rparr>))"

subsection \<open>Labels to indices\<close>

text \<open>
  The two \<^verbatim>\<open>if\<close>/\<^verbatim>\<open>else if\<close> chains of the loop body, one for each list. Both index
  variables are initialised to 25, which is what remains when no comparison succeeds.
\<close>

definition pclindex :: "string \<Rightarrow> u32" where
  "pclindex pclclassification =
     (if pclclassification = ''RBC'' then 0
      else if pclclassification = ''DRBC'' then 1
      else if pclclassification = ''RBCC'' then 2
      else if pclclassification = ''WBC'' then 3
      else if pclclassification = ''WBCC'' then 4
      else if pclclassification = ''BACT'' then 5
      else if pclclassification = ''SQEP'' then 6
      else if pclclassification = ''NSE'' then 7
      else if pclclassification = ''TREP'' then 8
      else if pclclassification = ''REEP'' then 9
      else if pclclassification = ''CAOX'' then 10
      else if pclclassification = ''URIC'' then 11
      else if pclclassification = ''TPO4'' then 12
      else if pclclassification = ''CAPH'' then 13
      else if pclclassification = ''CYST'' then 14
      else if pclclassification = ''LEUC'' then 15
      else if pclclassification = ''AMOR'' then 16
      else if pclclassification = ''CELL'' then 17
      else if pclclassification = ''GRAN'' then 18
      else if pclclassification = ''MUCS'' then 19
      else if pclclassification = ''SPRM'' then 20
      else if pclclassification = ''BYST'' then 21
      else if pclclassification = ''HYST'' then 22
      else if pclclassification = ''TRCH'' then 23
      else if pclclassification = ''BUBB'' then 24
      else if pclclassification = ''NONE'' then 25
      else 25)"

definition aclindex :: "string \<Rightarrow> u32" where
  "aclindex aclclassification =
     (if aclclassification = ''RBC'' then 0
      else if aclclassification = ''DRBC'' then 1
      else if aclclassification = ''RBCC'' then 2
      else if aclclassification = ''WBC'' then 3
      else if aclclassification = ''WBCC'' then 4
      else if aclclassification = ''BACT'' then 5
      else if aclclassification = ''SQEP'' then 6
      else if aclclassification = ''NSE'' then 7
      else if aclclassification = ''TREP'' then 8
      else if aclclassification = ''REEP'' then 9
      else if aclclassification = ''CAOX'' then 10
      else if aclclassification = ''URIC'' then 11
      else if aclclassification = ''TPO4'' then 12
      else if aclclassification = ''CAPH'' then 13
      else if aclclassification = ''CYST'' then 14
      else if aclclassification = ''LEUC'' then 15
      else if aclclassification = ''AMOR'' then 16
      else if aclclassification = ''CELL'' then 17
      else if aclclassification = ''GRAN'' then 18
      else if aclclassification = ''MUCS'' then 19
      else if aclclassification = ''SPRM'' then 20
      else if aclclassification = ''BYST'' then 21
      else if aclclassification = ''HYST'' then 22
      else if aclclassification = ''TRCH'' then 23
      else if aclclassification = ''BUBB'' then 24
      else if aclclassification = ''NONE'' then 25
      else 25)"

subsection \<open>Accumulating the matrix\<close>

text \<open>
  \<^verbatim>\<open>list.Classifications()[this->subsamplenumber-1]\<close>. \<^verbatim>\<open>std::vector::operator[]\<close>
  checks no bound, and an index outside the vector is undefined behaviour: the value
  \<open>None\<close> here. The member is a \<^verbatim>\<open>uint8_t\<close>, promoted to \<^verbatim>\<open>int\<close> for the
  subtraction: selector 0 gives \<open>-1\<close>, which converts to the largest \<^verbatim>\<open>size_t\<close>, an
  index no vector has.
\<close>

definition subsample :: "PatchClassification list list \<Rightarrow> u8 \<Rightarrow> PatchClassification list option" where
  "subsample classifications subsamplenumber =
     (if subsamplenumber = 0 then None
      else if unat subsamplenumber - 1 < length classifications
        then Some (classifications ! (unat subsamplenumber - 1))
      else None)"

text \<open>
  The \<^verbatim>\<open>while\<close> loop of \<^verbatim>\<open>WriteSort\<close>. \<^verbatim>\<open>count\<close> is a \<^verbatim>\<open>uint32_t\<close> compared with a
  \<^verbatim>\<open>size_t\<close>, and \<^verbatim>\<open>++count\<close> wraps around; \<^verbatim>\<open>&&\<close> evaluates its right operand, and
  with it the second list's subsample, only when the left one holds. The two
  subscripts \<^verbatim>\<open>[count]\<close> are within bounds by the loop condition, and the two indices
  are at most 25, within the matrix. A loop that never ends is the value \<open>None\<close>.
\<close>

partial_function (option) WriteSort_loop ::
  "PatchClassification list list \<Rightarrow> PatchClassification list list \<Rightarrow> u8 \<Rightarrow> u32 \<Rightarrow> Matrix
     \<Rightarrow> Matrix outcome option" where
  "WriteSort_loop pclpatchlist aclpatchlist subsamplenumber count conmatrix =
     (case subsample pclpatchlist subsamplenumber of
        None \<Rightarrow> Some Undefined_behaviour
      | Some pcl \<Rightarrow>
          if \<not> unat count < length pcl then Some (Returns conmatrix)
          else
            (case subsample aclpatchlist subsamplenumber of
               None \<Rightarrow> Some Undefined_behaviour
             | Some acl \<Rightarrow>
                 if \<not> unat count < length acl then Some (Returns conmatrix)
                 else
                   (case increment conmatrix
                           (pclindex (classification (pcl ! unat count)))
                           (aclindex (classification (acl ! unat count))) of
                      Undefined_behaviour \<Rightarrow> Some Undefined_behaviour
                    | Returns conmatrix' \<Rightarrow>
                        WriteSort_loop pclpatchlist aclpatchlist subsamplenumber
                          (count + 1) conmatrix')))"

text \<open>The matrix that \<^verbatim>\<open>WriteSort\<close> has built when its loop is left.\<close>

definition WriteSort_conmatrix ::
  "PatchClassification list list \<Rightarrow> PatchClassification list list \<Rightarrow> u8
     \<Rightarrow> Matrix outcome option" where
  "WriteSort_conmatrix pclpatchlist aclpatchlist subsamplenumber =
     WriteSort_loop pclpatchlist aclpatchlist subsamplenumber 0 (Matrix 26 26)"

subsection \<open>Writing the matrix\<close>

text \<open>
  The conversion \<^verbatim>\<open>%d\<close> of \<^verbatim>\<open>fprintf\<close>: the decimal digits of the number, after a
  minus sign when it is negative.
\<close>

fun decimal :: "nat \<Rightarrow> string" where
  "decimal n =
     (if n < 10 then [''0123456789'' ! n]
      else decimal (n div 10) @ [''0123456789'' ! (n mod 10)])"

definition printf_d :: "i32 \<Rightarrow> string" where
  "printf_d v =
     (if sint v < 0 then CHR ''-'' # decimal (nat (- sint v)) else decimal (nat (sint v)))"

text \<open>
  The two nested \<^verbatim>\<open>for\<close> loops. The file \<^verbatim>\<open>fp\<close> is its content; it was opened with
  mode \<^verbatim>\<open>"a+"\<close>, so every \<^verbatim>\<open>fprintf\<close> writes at the end of it.
\<close>

definition fprintf_row :: "Matrix \<Rightarrow> nat \<Rightarrow> string \<Rightarrow> string" where
  "fprintf_row conmatrix i fp =
     fold (\<lambda>j fp. fp @ printf_d (cell conmatrix i j) @ [CHR 0x09]) [0..<Dim2 conmatrix] fp
       @ [CHR 0x0A]"

definition fprintf_matrix :: "Matrix \<Rightarrow> string \<Rightarrow> string" where
  "fprintf_matrix conmatrix fp = fold (fprintf_row conmatrix) [0..<Dim1 conmatrix] fp"

text \<open>
  \<^verbatim>\<open>fopen(..., "a+")\<close> up to \<^verbatim>\<open>fclose(fp)\<close>. The argument is what \<^verbatim>\<open>fopen\<close> finds: the
  content of ConfusionMatrix.txt (empty for a file it has just created), or \<open>None\<close>
  when the file cannot be opened. The code does not test the handle, and writing
  through a null handle is undefined.
\<close>

definition WriteSort_write :: "string option \<Rightarrow> Matrix \<Rightarrow> string outcome" where
  "WriteSort_write file conmatrix =
     (case file of
        None \<Rightarrow> Undefined_behaviour
      | Some fp \<Rightarrow> Returns (fprintf_matrix conmatrix fp))"

text \<open>
  \<^verbatim>\<open>WriteSort\<close> from the two opened streams on: both lists are parsed, the matrix is
  built for the subsample number of the extractor and written to the file. The
  result is the content of the file afterwards.
\<close>

definition WriteSort :: "istream \<Rightarrow> istream \<Rightarrow> u8 \<Rightarrow> string option \<Rightarrow> string outcome option" where
  "WriteSort pclfilestream aclfilestream subsamplenumber file =
     (case WriteSort_conmatrix (ClassificationList pclfilestream)
             (ClassificationList aclfilestream) subsamplenumber of
        None \<Rightarrow> None
      | Some Undefined_behaviour \<Rightarrow> Some Undefined_behaviour
      | Some (Returns conmatrix) \<Rightarrow> Some (WriteSort_write file conmatrix))"

section \<open>Notions used to state the properties\<close>

text \<open>The two characters that end a token.\<close>

definition is_delim :: "char \<Rightarrow> bool" where
  "is_delim c \<longleftrightarrow> c = CHR '','' \<or> c = CHR ''<''"

text \<open>The characters of a text that are not whitespace.\<close>

definition nonspace :: "string \<Rightarrow> string" where
  "nonspace cs = filter (\<lambda>c. \<not> isspace c) cs"

text \<open>The part of a subsample body up to and including the first \<open><\<close>.\<close>

definition scanned :: "string \<Rightarrow> string" where
  "scanned body =
     takeWhile (\<lambda>c. c \<noteq> CHR ''<'') body @ take 1 (dropWhile (\<lambda>c. c \<noteq> CHR ''<'') body)"

text \<open>
  The records that the loop of \<^verbatim>\<open>SubsampleClassifications\<close> adds while it works
  through the characters \<open>cs\<close>, none of them whitespace, from the given index and
  token buffer on.
\<close>

fun emitted :: "u32 \<Rightarrow> u32 \<Rightarrow> string \<Rightarrow> string \<Rightarrow> PatchClassification list" where
  "emitted ssn index className [] = []"
| "emitted ssn index className (c # cs) =
     (if c = CHR '','' \<or> c = CHR ''<'' then
        \<lparr>subsampleNumber = ssn, patchIndex = index,
         classification = (if className \<noteq> [] then className else ''NONE'')\<rparr>
        # (if c = CHR ''<'' then [] else emitted ssn (index + 1) [] cs)
      else emitted ssn index (className @ [c]) cs)"

text \<open>A line that holds one subsample between an opening and a closing tag.\<close>

definition class_line :: "string \<Rightarrow> string" where
  "class_line body = ''<CLASS>'' @ body @ ''</CLASS>'' @ [CHR 0x0A]"

text \<open>The labels that the two chains compare with, in the order of their indices.\<close>

definition vocabulary :: "string list" where
  "vocabulary =
     [''RBC'', ''DRBC'', ''RBCC'', ''WBC'', ''WBCC'', ''BACT'', ''SQEP'', ''NSE'', ''TREP'',
      ''REEP'', ''CAOX'', ''URIC'', ''TPO4'', ''CAPH'', ''CYST'', ''LEUC'', ''AMOR'', ''CELL'',
      ''GRAN'', ''MUCS'', ''SPRM'', ''BYST'', ''HYST'', ''TRCH'', ''BUBB'']"

text \<open>
  The number of positions below \<open>n\<close> at which the label of the first list maps to
  \<open>i\<close> and the label of the second list to \<open>j\<close>.
\<close>

definition pairs :: "PatchClassification list \<Rightarrow> PatchClassification list \<Rightarrow> nat \<Rightarrow> nat \<Rightarrow> nat \<Rightarrow> nat" where
  "pairs pcl acl n i j =
     length (filter (\<lambda>k. unat (pclindex (classification (pcl ! k))) = i \<and>
                          unat (aclindex (classification (acl ! k))) = j) [0..<n])"

text \<open>
  The count, read as an \<^verbatim>\<open>int32_t\<close>, that a run leaves in a cell, when the run ends
  with a matrix.
\<close>

definition count_in_cell :: "Matrix outcome option \<Rightarrow> nat \<Rightarrow> nat \<Rightarrow> int option" where
  "count_in_cell run i j =
     (case run of
        Some (Returns conmatrix) \<Rightarrow> Some (sint (cell conmatrix i j))
      | _ \<Rightarrow> None)"

text \<open>A matrix with a table of counts added to its cells.\<close>

definition add_counts :: "Matrix \<Rightarrow> (nat \<Rightarrow> nat \<Rightarrow> nat) \<Rightarrow> Matrix" where
  "add_counts conmatrix counts =
     conmatrix\<lparr>cell := \<lambda>i j. cell conmatrix i j + of_nat (counts i j)\<rparr>"

text \<open>A stream with one tagged subsample of \<open>n\<close> tokens with the same label.\<close>

definition uniform_stream :: "string \<Rightarrow> nat \<Rightarrow> string" where
  "uniform_stream l n = ''<CLASS>'' @ concat (replicate n (l @ '',''))"

text \<open>The records of such a subsample: \<open>n\<close> records with the same label.\<close>

definition uniform_records :: "string \<Rightarrow> nat \<Rightarrow> PatchClassification list" where
  "uniform_records l n =
     map (\<lambda>k. \<lparr>subsampleNumber = 1, patchIndex = of_nat k, classification = l\<rparr>) [0..<n]"

text \<open>A subsample selector that is in range for a list: at least 1, at most its length.\<close>

definition in_range :: "PatchClassification list list \<Rightarrow> u8 \<Rightarrow> bool" where
  "in_range classifications subsamplenumber \<longleftrightarrow>
     1 \<le> unat subsamplenumber \<and> unat subsamplenumber \<le> length classifications"

text \<open>
  One row of the matrix as text: every cell of the row as a decimal number followed by
  a tab, then a line feed. And all rows, one after the other.
\<close>

definition row_text :: "Matrix \<Rightarrow> nat \<Rightarrow> string" where
  "row_text conmatrix i =
     concat (map (\<lambda>j. printf_d (cell conmatrix i j) @ [CHR 0x09]) [0..<Dim2 conmatrix])
       @ [CHR 0x0A]"

definition matrix_text :: "Matrix \<Rightarrow> string" where
  "matrix_text conmatrix = concat (map (row_text conmatrix) [0..<Dim1 conmatrix])"

text \<open>
  Reading the written text back, without the functions that wrote it. A decimal
  numeral is a non-empty run of the digits 0 to 9 that does not start with 0 unless it
  is the one digit 0; its value is taken digit by digit from the character codes.
\<close>

definition is_digit :: "char \<Rightarrow> bool" where
  "is_digit c \<longleftrightarrow> (48 :: nat) \<le> of_char c \<and> of_char c \<le> (57 :: nat)"

definition natural_of :: "string \<Rightarrow> nat option" where
  "natural_of s =
     (if s \<noteq> [] \<and> list_all is_digit s \<and> (length s = 1 \<or> hd s \<noteq> CHR ''0'')
      then Some (foldl (\<lambda>n c. 10 * n + (of_char c - 48)) 0 s)
      else None)"

text \<open>
  An integer in text: a decimal numeral, or a minus sign and the decimal numeral of a
  positive number. Nothing else is read as a number.
\<close>

definition number_of :: "string \<Rightarrow> int option" where
  "number_of s =
     (case s of
        [] \<Rightarrow> None
      | c # cs \<Rightarrow>
          if c = CHR ''-'' then
            (case natural_of cs of
               None \<Rightarrow> None
             | Some n \<Rightarrow> if n = 0 then None else Some (- int n))
          else map_option int (natural_of s))"

text \<open>
  A text cut into the pieces that the character \<open>d\<close> ends. A text with characters after
  its last \<open>d\<close> is not such a sequence of pieces.
\<close>

fun terminated :: "char \<Rightarrow> string \<Rightarrow> string \<Rightarrow> string list option" where
  "terminated d piece [] = (if piece = [] then Some [] else None)"
| "terminated d piece (c # cs) =
     (if c = d then map_option ((#) piece) (terminated d [] cs)
      else terminated d (piece @ [c]) cs)"

text \<open>
  A row of integers from a line in which a tab ends every integer, and a table of
  integers from a text in which a line feed ends every such line.
\<close>

definition read_row :: "string \<Rightarrow> int list option" where
  "read_row line =
     (case terminated (CHR 0x09) [] line of
        None \<Rightarrow> None
      | Some numerals \<Rightarrow> those (map number_of numerals))"

definition read_table :: "string \<Rightarrow> int list list option" where
  "read_table written =
     (case terminated (CHR 0x0A) [] written of
        None \<Rightarrow> None
      | Some rows \<Rightarrow> those (map read_row rows))"

text \<open>
  The counts of a matrix as a table of integers: one row for each first index, in
  each row the cells in the order of the second index.
\<close>

definition table :: "Matrix \<Rightarrow> int list list" where
  "table conmatrix =
     map (\<lambda>i. map (\<lambda>j. sint (cell conmatrix i j)) [0..<Dim2 conmatrix])
       [0..<Dim1 conmatrix]"

text \<open>
  The subsamples of consecutive bodies, each scanned with its terminating \<open><\<close>, numbered
  from the successor of the given subsample number on.
\<close>

fun blocks :: "u32 \<Rightarrow> string list \<Rightarrow> PatchClassification list list" where
  "blocks ssn [] = []"
| "blocks ssn (body # bodies) =
     snd (SubsampleClassifications (istream_of (body @ ''<'')) (ssn + 1))
       # blocks (ssn + 1) bodies"

section \<open>Auxiliary facts\<close>

declare ClassificationList_loop.simps [simp del]

declare decimal.simps [simp del]

subsection \<open>The two loops of the parser, with the results of the calls taken apart\<close>

lemma SubsampleClassifications_loop_Some:
  "SubsampleClassifications_loop s (Some nextChar) ssn className index result =
     (if nextChar = CHR '','' \<or> nextChar = CHR ''<'' then
        (let result' =
               (if className \<noteq> []
                then result @ [\<lparr>subsampleNumber = ssn, patchIndex = index,
                                classification = className\<rparr>]
                else result @ [\<lparr>subsampleNumber = ssn, patchIndex = index,
                                classification = ''NONE''\<rparr>])
         in if nextChar = CHR ''<'' then (fst (extract_char s), result')
            else SubsampleClassifications_loop (fst (extract_char s)) (snd (extract_char s))
                   ssn [] (index + 1) result')
      else SubsampleClassifications_loop (fst (extract_char s)) (snd (extract_char s))
             ssn (className @ [nextChar]) index result)"
  by (simp add: case_prod_unfold)

lemma SubsampleClassifications_loop_induct:
  assumes "\<And>s ssn className index result. P s None ssn className index result"
    and "\<And>s nextChar ssn className index result.
      (\<And>result'. nextChar = CHR '','' \<or> nextChar = CHR ''<'' \<Longrightarrow>
          result' =
            (if className \<noteq> []
             then result @ [\<lparr>subsampleNumber = ssn, patchIndex = index,
                             classification = className\<rparr>]
             else result @ [\<lparr>subsampleNumber = ssn, patchIndex = index,
                             classification = ''NONE''\<rparr>]) \<Longrightarrow>
          nextChar \<noteq> CHR ''<'' \<Longrightarrow>
          P (fst (extract_char s)) (snd (extract_char s)) ssn [] (index + 1) result') \<Longrightarrow>
      (\<not> (nextChar = CHR '','' \<or> nextChar = CHR ''<'') \<Longrightarrow>
          P (fst (extract_char s)) (snd (extract_char s)) ssn (className @ [nextChar])
            index result) \<Longrightarrow>
      P s (Some nextChar) ssn className index result"
  shows "P s iter ssn className index result"
proof (induction s iter ssn className index result rule: SubsampleClassifications_loop.induct)
  case (1 stream ssn className index result)
  show ?case by (rule assms(1))
next
  case (2 stream nextChar ssn className index result)
  show ?case
    by (rule assms(2)) (rule 2(1) [OF prod.collapse], assumption+, rule 2(2) [OF prod.collapse])
qed

declare SubsampleClassifications_loop.simps(2) [simp del]

declare SubsampleClassifications_loop_Some [simp]

lemma SubsampleClassifications_unfold:
  "SubsampleClassifications stream ssn =
     SubsampleClassifications_loop (fst (extract_char stream)) (snd (extract_char stream))
       ssn [] 0 []"
  by (simp add: SubsampleClassifications_def case_prod_unfold)

lemma ClassificationList_loop_unfold:
  "ClassificationList_loop stream input ssn classifications =
     (if failbit (fst (getline stream input (CHR ''>''))) then classifications
      else if trim_left (snd (getline stream input (CHR ''>''))) = ''<CLASS'' then
        ClassificationList_loop
          (fst (SubsampleClassifications (fst (getline stream input (CHR ''>''))) (ssn + 1)))
          (trim_left (snd (getline stream input (CHR ''>''))))
          (ssn + 1)
          (classifications @
             [snd (SubsampleClassifications (fst (getline stream input (CHR ''>''))) (ssn + 1))])
      else
        ClassificationList_loop
          (fst (getline (fst (getline stream input (CHR ''>'')))
                  (trim_left (snd (getline stream input (CHR ''>'')))) (CHR 0x0A)))
          (snd (getline (fst (getline stream input (CHR ''>'')))
                  (trim_left (snd (getline stream input (CHR ''>'')))) (CHR 0x0A)))
          ssn classifications)"
  by (subst ClassificationList_loop.simps) (simp add: case_prod_unfold)

lemma ClassificationList_loop_induct:
  assumes "\<And>stream input ssn classifications.
      (\<not> failbit (fst (getline stream input (CHR ''>''))) \<Longrightarrow>
       trim_left (snd (getline stream input (CHR ''>''))) = ''<CLASS'' \<Longrightarrow>
       P (fst (SubsampleClassifications (fst (getline stream input (CHR ''>''))) (ssn + 1)))
         (trim_left (snd (getline stream input (CHR ''>''))))
         (ssn + 1)
         (classifications @
            [snd (SubsampleClassifications (fst (getline stream input (CHR ''>'')))
                    (ssn + 1))])) \<Longrightarrow>
      (\<not> failbit (fst (getline stream input (CHR ''>''))) \<Longrightarrow>
       trim_left (snd (getline stream input (CHR ''>''))) \<noteq> ''<CLASS'' \<Longrightarrow>
       P (fst (getline (fst (getline stream input (CHR ''>'')))
                 (trim_left (snd (getline stream input (CHR ''>'')))) (CHR 0x0A)))
         (snd (getline (fst (getline stream input (CHR ''>'')))
                 (trim_left (snd (getline stream input (CHR ''>'')))) (CHR 0x0A)))
         ssn classifications) \<Longrightarrow>
      P stream input ssn classifications"
  shows "P stream input ssn classifications"
proof (induction stream input ssn classifications rule: ClassificationList_loop.induct)
  case (1 stream input ssn classifications)
  show ?case
    by (rule assms)
      (rule 1(1) [OF prod.collapse _ _ prod.collapse], assumption+,
       rule 1(2) [OF prod.collapse _ _ prod.collapse], assumption+)
qed

subsection \<open>The character extractor\<close>

lemma extract_char_good:
  "good s \<Longrightarrow> extract_char s =
     (case dropWhile isspace (rdbuf s) of
        [] \<Rightarrow> (\<lparr>rdbuf = [], eofbit = True, failbit = True\<rparr>, None)
      | c # rest \<Rightarrow> (s\<lparr>rdbuf := rest\<rparr>, Some c))"
  by (simp add: extract_char_def)

lemma nonspace_dropWhile: "nonspace (dropWhile isspace cs) = nonspace cs"
  by (induction cs) (auto simp: nonspace_def)

lemma dropWhile_isspace_hd: "dropWhile isspace cs = c # rest \<Longrightarrow> \<not> isspace c"
  using hd_dropWhile [of isspace cs] by auto

lemma nonspace_Cons: "dropWhile isspace cs = c # rest \<Longrightarrow> nonspace cs = c # nonspace rest"
  using nonspace_dropWhile [of cs] dropWhile_isspace_hd [of cs c rest]
  by (simp add: nonspace_def)

lemma nonspace_Nil: "dropWhile isspace cs = [] \<Longrightarrow> nonspace cs = []"
  using nonspace_dropWhile [of cs] by (simp add: nonspace_def)

lemma extract_char_None:
  "good s \<Longrightarrow> dropWhile isspace (rdbuf s) = [] \<Longrightarrow>
   extract_char s = (\<lparr>rdbuf = [], eofbit = True, failbit = True\<rparr>, None)"
  by (simp only: extract_char_good list.case)

lemma extract_char_Some:
  "good s \<Longrightarrow> dropWhile isspace (rdbuf s) = c # rest \<Longrightarrow>
   extract_char s = (s\<lparr>rdbuf := rest\<rparr>, Some c)"
  by (simp only: extract_char_good list.case)

lemma good_rdbuf_update: "good (s\<lparr>rdbuf := cs\<rparr>) = good s"
  by (simp add: good_def)

subsection \<open>The loop of one subsample, as a function of the characters\<close>

lemma loop_emitted:
  "good s \<Longrightarrow>
   snd (SubsampleClassifications_loop s (Some c) ssn cn idx res) =
     res @ emitted ssn idx cn (c # nonspace (rdbuf s))"
proof (induction s "Some c" ssn cn idx res arbitrary: c rule: SubsampleClassifications_loop_induct)
  case (2 s nextChar ssn className index result)
  show ?case
  proof (cases "dropWhile isspace (rdbuf s)")
    case Nil
    from extract_char_None [OF 2(3) Nil] nonspace_Nil [OF Nil] show ?thesis
      by (simp add: Let_def)
  next
    case (Cons c' rest)
    have g: "good (s\<lparr>rdbuf := rest\<rparr>)" using 2(3) by (simp add: good_def)
    note e = extract_char_Some [OF 2(3) Cons]
    show ?thesis
      using 2(1)[of _ c'] 2(2)[of c'] g e nonspace_Cons [OF Cons]
      by (simp add: Let_def)
  qed
qed

lemma body_emitted:
  "snd (SubsampleClassifications s ssn) =
     (if good s then emitted ssn 0 [] (nonspace (rdbuf s)) else [])"
proof (cases "good s")
  case False
  then show ?thesis by (simp add: SubsampleClassifications_unfold extract_char_def)
next
  case True
  show ?thesis
  proof (cases "dropWhile isspace (rdbuf s)")
    case Nil
    from extract_char_None [OF True Nil] nonspace_Nil [OF Nil] True show ?thesis
      by (simp add: SubsampleClassifications_unfold)
  next
    case (Cons c rest)
    have g: "good (s\<lparr>rdbuf := rest\<rparr>)" using True by (simp add: good_def)
    show ?thesis
      using True extract_char_Some [OF True Cons] nonspace_Cons [OF Cons]
        loop_emitted [OF g, of c ssn "[]" 0 "[]"]
      by (simp add: SubsampleClassifications_unfold)
  qed
qed

subsection \<open>The emitted records\<close>

lemma is_delim_not_space: "is_delim c \<Longrightarrow> \<not> isspace c"
  by (auto simp: is_delim_def isspace_def)

lemma lt_not_space: "\<not> isspace (CHR ''<'')"
  by (simp add: isspace_def)

lemma filter_delim_nonspace: "filter is_delim (nonspace cs) = filter is_delim cs"
  by (induction cs) (auto simp: nonspace_def dest: is_delim_not_space)

lemma scanned_Nil: "scanned [] = []"
  by (simp add: scanned_def)

lemma scanned_Cons:
  "scanned (c # cs) = (if c = CHR ''<'' then [c] else c # scanned cs)"
  by (simp add: scanned_def)

lemma scanned_nonspace: "filter is_delim (scanned (nonspace cs)) = filter is_delim (scanned cs)"
  by (induction cs) (auto simp: nonspace_def scanned_Cons scanned_Nil is_delim_def isspace_def)

lemma length_emitted:
  "length (emitted ssn idx cn cs) = length (filter is_delim (scanned cs))"
  by (induction cs arbitrary: idx cn) (auto simp: scanned_Cons scanned_Nil is_delim_def)

lemma emitted_nth:
  "k < length (emitted ssn idx cn cs) \<Longrightarrow>
   patchIndex (emitted ssn idx cn cs ! k) = idx + of_nat k \<and>
   subsampleNumber (emitted ssn idx cn cs ! k) = ssn"
proof (induction cs arbitrary: idx cn k)
  case Nil
  then show ?case by simp
next
  case (Cons c cs)
  show ?case
  proof (cases k)
    case 0
    with Cons show ?thesis by (auto split: if_splits)
  next
    case (Suc k')
    with Cons.prems Cons.IH [of k' "idx + 1" "[]"] Cons.IH [of k idx "cn @ [c]"]
    show ?thesis by (auto split: if_splits simp: algebra_simps)
  qed
qed

lemma emitted_no_delim:
  "\<forall>c\<in>set tok. \<not> is_delim c \<Longrightarrow> emitted ssn idx cn tok = []"
  by (induction tok arbitrary: cn) (auto simp: is_delim_def)

lemma emitted_dangling:
  "\<forall>c\<in>set tok. \<not> is_delim c \<Longrightarrow> emitted ssn idx cn (cs @ tok) = emitted ssn idx cn cs"
  by (induction cs arbitrary: idx cn) (auto simp: emitted_no_delim)

lemma nonspace_append: "nonspace (xs @ ys) = nonspace xs @ nonspace ys"
  by (simp add: nonspace_def)

lemma set_nonspace: "set (nonspace cs) \<subseteq> set cs"
  by (auto simp: nonspace_def)

subsection \<open>Where the loop of one subsample leaves the stream\<close>

lemma dropWhile_dropWhile_weaker:
  "(\<And>x. Q x \<Longrightarrow> P x) \<Longrightarrow> dropWhile P (dropWhile Q xs) = dropWhile P xs"
  by (induction xs) auto

lemma dropWhile_lt_isspace:
  "dropWhile (\<lambda>x. x \<noteq> CHR ''<'') (dropWhile isspace xs) = dropWhile (\<lambda>x. x \<noteq> CHR ''<'') xs"
  by (rule dropWhile_dropWhile_weaker) (auto simp: isspace_def)

lemma loop_stops_after_lt:
  "good s \<Longrightarrow> dropWhile (\<lambda>x. x \<noteq> CHR ''<'') (c # rdbuf s) = CHR ''<'' # x # rest \<Longrightarrow>
   \<not> isspace x \<Longrightarrow>
   fst (SubsampleClassifications_loop s (Some c) ssn cn idx res) = s\<lparr>rdbuf := rest\<rparr>"
proof (induction s "Some c" ssn cn idx res arbitrary: c rule: SubsampleClassifications_loop_induct)
  case (2 s nextChar ssn className index result)
  show ?case
  proof (cases "nextChar = CHR ''<''")
    case True
    with 2(4) have "rdbuf s = x # rest" by simp
    with 2(5) have "dropWhile isspace (rdbuf s) = x # rest" by simp
    from extract_char_Some [OF 2(3) this] True show ?thesis by (simp add: Let_def)
  next
    case False
    with 2(4) have d: "dropWhile (\<lambda>x. x \<noteq> CHR ''<'') (rdbuf s) = CHR ''<'' # x # rest" by simp
    then have "dropWhile (\<lambda>x. x \<noteq> CHR ''<'') (dropWhile isspace (rdbuf s)) = CHR ''<'' # x # rest"
      by (simp only: dropWhile_lt_isspace)
    then obtain c' r' where cr: "dropWhile isspace (rdbuf s) = c' # r'"
      and d': "dropWhile (\<lambda>x. x \<noteq> CHR ''<'') (c' # r') = CHR ''<'' # x # rest"
      by (cases "dropWhile isspace (rdbuf s)") simp_all
    note e = extract_char_Some [OF 2(3) cr]
    have g: "good (s\<lparr>rdbuf := r'\<rparr>)" using 2(3) by (simp add: good_def)
    have r: "rdbuf (s\<lparr>rdbuf := r'\<rparr>) = r'" by simp
    show ?thesis
      using False 2(1)[of _ c'] 2(2)[of c'] g e d' 2(5)
      by (simp add: Let_def)
  qed
qed

lemma body_stops_after_lt:
  assumes "good s" and "rdbuf s = body @ CHR ''<'' # x # rest"
    and "CHR ''<'' \<notin> set body" and "\<not> isspace x"
  shows "fst (SubsampleClassifications s ssn) = s\<lparr>rdbuf := rest\<rparr>"
proof -
  from assms(2,3) have d: "dropWhile (\<lambda>x. x \<noteq> CHR ''<'') (rdbuf s) = CHR ''<'' # x # rest"
    by (auto simp: dropWhile_append3)
  then have "dropWhile (\<lambda>x. x \<noteq> CHR ''<'') (dropWhile isspace (rdbuf s)) = CHR ''<'' # x # rest"
    by (simp only: dropWhile_lt_isspace)
  then obtain c' r' where cr: "dropWhile isspace (rdbuf s) = c' # r'"
    and d': "dropWhile (\<lambda>x. x \<noteq> CHR ''<'') (c' # r') = CHR ''<'' # x # rest"
    by (cases "dropWhile isspace (rdbuf s)") simp_all
  note e = extract_char_Some [OF assms(1) cr]
  have g: "good (s\<lparr>rdbuf := r'\<rparr>)" using assms(1) by (simp add: good_def)
  from loop_stops_after_lt [OF g _ assms(4), of c' rest ssn "[]" 0 "[]"] d' e
  show ?thesis by (simp add: SubsampleClassifications_unfold)
qed

lemma emitted_stops_at_lt:
  "emitted ssn idx cn (xs @ CHR ''<'' # ys) = emitted ssn idx cn (xs @ ''<'')"
  by (induction xs arbitrary: idx cn) auto

lemma body_records_upto_lt:
  assumes "good s" and "rdbuf s = body @ CHR ''<'' # rest"
  shows "snd (SubsampleClassifications s ssn) =
         snd (SubsampleClassifications (istream_of (body @ ''<'')) ssn)"
proof -
  have "nonspace (rdbuf s) = nonspace body @ CHR ''<'' # nonspace rest"
    using assms(2) by (simp add: nonspace_def isspace_def)
  moreover have "nonspace (body @ ''<'') = nonspace body @ ''<''"
    by (simp add: nonspace_def isspace_def)
  ultimately show ?thesis
    using assms(1) emitted_stops_at_lt [of ssn 0 "[]" "nonspace body" "nonspace rest"]
    by (simp add: body_emitted good_def istream_of_def)
qed

subsection \<open>The constructor on lines of tagged subsamples\<close>

lemma getline_failed: "failbit s \<Longrightarrow> failbit (fst (getline s input d))"
  by (simp add: getline_def good_def)

lemma loop_failed:
  "failbit s \<Longrightarrow> ClassificationList_loop s input ssn cls = cls"
  by (subst ClassificationList_loop_unfold) (simp add: getline_failed)

lemma loop_at_end:
  "good s \<Longrightarrow> rdbuf s = [] \<Longrightarrow> ClassificationList_loop s input ssn cls = cls"
  by (subst ClassificationList_loop_unfold) (simp add: getline_def)

lemma getline_open_tag:
  "good s \<Longrightarrow> rdbuf s = ''<CLASS>'' @ rest \<Longrightarrow>
   getline s input (CHR ''>'') = (s\<lparr>rdbuf := rest\<rparr>, ''<CLASS'')"
  by (simp add: getline_def)

lemma getline_close_tag:
  "good s \<Longrightarrow> rdbuf s = ''CLASS>'' @ CHR 0x0A # rest \<Longrightarrow>
   getline s input (CHR ''>'') = (s\<lparr>rdbuf := CHR 0x0A # rest\<rparr>, ''CLASS'')"
  by (simp add: getline_def)

lemma getline_newline:
  "good s \<Longrightarrow> rdbuf s = CHR 0x0A # rest \<Longrightarrow>
   getline s input (CHR 0x0A) = (s\<lparr>rdbuf := rest\<rparr>, [])"
  by (simp add: getline_def)

lemma trim_left_tags: "trim_left ''<CLASS'' = ''<CLASS''" "trim_left ''CLASS'' = ''CLASS''"
  by (simp_all add: trim_left_def isspace_def)

lemma loop_class_line:
  assumes g: "good s" and r: "rdbuf s = class_line body @ rest" and b: "CHR ''<'' \<notin> set body"
  shows "ClassificationList_loop s input ssn cls =
         ClassificationList_loop (s\<lparr>rdbuf := rest\<rparr>) [] (ssn + 1)
           (cls @ [snd (SubsampleClassifications (istream_of (body @ ''<'')) (ssn + 1))])"
proof -
  let ?s1 = "s\<lparr>rdbuf := body @ ''</CLASS>'' @ CHR 0x0A # rest\<rparr>"
  let ?s2 = "s\<lparr>rdbuf := ''CLASS>'' @ CHR 0x0A # rest\<rparr>"
  let ?s3 = "s\<lparr>rdbuf := CHR 0x0A # rest\<rparr>"
  have g1: "good ?s1" and g2: "good ?s2" and g3: "good ?s3"
    using g by (simp_all add: good_def)
  have nf: "\<not> failbit s" "\<not> failbit ?s1" "\<not> failbit ?s2" "\<not> failbit ?s3"
    using g by (simp_all add: good_def)
  have e1: "getline s input (CHR ''>'') = (?s1, ''<CLASS'')"
    using getline_open_tag [OF g, of "body @ ''</CLASS>'' @ CHR 0x0A # rest" input] r
    by (simp add: class_line_def)
  have f: "fst (SubsampleClassifications ?s1 (ssn + 1)) = ?s2"
    using body_stops_after_lt [OF g1, of body "CHR ''/''" "''CLASS>'' @ CHR 0x0A # rest" "ssn + 1"] b
    by (simp add: isspace_def)
  have rec: "snd (SubsampleClassifications ?s1 (ssn + 1)) =
             snd (SubsampleClassifications (istream_of (body @ ''<'')) (ssn + 1))"
    using body_records_upto_lt [OF g1, of body "''/CLASS>'' @ CHR 0x0A # rest" "ssn + 1"]
    by simp
  have e2: "getline ?s2 ''<CLASS'' (CHR ''>'') = (?s3, ''CLASS'')"
    using getline_close_tag [OF g2, of rest "''<CLASS''"] by simp
  have e3: "getline ?s3 ''CLASS'' (CHR 0x0A) = (s\<lparr>rdbuf := rest\<rparr>, [])"
    using getline_newline [OF g3, of rest "''CLASS''"] by simp
  have step1: "ClassificationList_loop s input ssn cls =
        ClassificationList_loop ?s2 ''<CLASS'' (ssn + 1)
          (cls @ [snd (SubsampleClassifications (istream_of (body @ ''<'')) (ssn + 1))])"
    by (subst ClassificationList_loop_unfold) (use f rec in \<open>simp add: e1 nf trim_left_tags\<close>)
  also have "\<dots> = ClassificationList_loop (s\<lparr>rdbuf := rest\<rparr>) [] (ssn + 1)
          (cls @ [snd (SubsampleClassifications (istream_of (body @ ''<'')) (ssn + 1))])"
    by (subst ClassificationList_loop_unfold) (use e2 e3 in \<open>simp add: nf trim_left_tags\<close>)
  finally show ?thesis .
qed

lemma loop_class_lines:
  "good s \<Longrightarrow> rdbuf s = concat (map class_line bodies) \<Longrightarrow>
   \<forall>body\<in>set bodies. CHR ''<'' \<notin> set body \<Longrightarrow>
   ClassificationList_loop s input ssn cls = cls @ blocks ssn bodies"
proof (induction bodies arbitrary: s input ssn cls)
  case Nil
  then show ?case by (simp add: loop_at_end)
next
  case (Cons body bodies)
  have g: "good (s\<lparr>rdbuf := concat (map class_line bodies)\<rparr>)"
    using Cons.prems(1) by (simp add: good_def)
  from Cons.prems have "ClassificationList_loop s input ssn cls =
      ClassificationList_loop (s\<lparr>rdbuf := concat (map class_line bodies)\<rparr>) [] (ssn + 1)
        (cls @ [snd (SubsampleClassifications (istream_of (body @ ''<'')) (ssn + 1))])"
    by (intro loop_class_line) simp_all
  also have "\<dots> = (cls @ [snd (SubsampleClassifications (istream_of (body @ ''<'')) (ssn + 1))])
        @ blocks (ssn + 1) bodies"
    using Cons.prems(3) by (intro Cons.IH [OF g]) simp_all
  finally show ?case by simp
qed

lemma length_blocks: "length (blocks ssn bodies) = length bodies"
  by (induction bodies arbitrary: ssn) simp_all

lemma blocks_nth:
  "i < length bodies \<Longrightarrow>
   blocks ssn bodies ! i =
     snd (SubsampleClassifications (istream_of (bodies ! i @ ''<'')) (ssn + 1 + of_nat i))"
proof (induction bodies arbitrary: ssn i)
  case Nil
  then show ?case by simp
next
  case (Cons body bodies)
  then show ?case by (cases i) (simp_all add: algebra_simps)
qed

lemma body_subsampleNumber:
  "r \<in> set (snd (SubsampleClassifications s ssn)) \<Longrightarrow> subsampleNumber r = ssn"
  using emitted_nth [of _ ssn 0 "[]" "nonspace (rdbuf s)"]
  by (auto simp: body_emitted in_set_conv_nth split: if_splits)

subsection \<open>A subsample that the stream ends in, and the members of a parsed list\<close>

lemma extract_char_rdbuf_subset: "set (rdbuf (fst (extract_char s))) \<subseteq> set (rdbuf s)"
proof (cases "good s")
  case False
  then show ?thesis by (simp add: extract_char_def)
next
  case True
  show ?thesis
  proof (cases "dropWhile isspace (rdbuf s)")
    case Nil
    from extract_char_None [OF True Nil] show ?thesis by simp
  next
    case (Cons c rest)
    have "set (dropWhile isspace (rdbuf s)) \<subseteq> set (rdbuf s)"
      by (rule set_dropWhileD [THEN subsetI])
    with Cons extract_char_Some [OF True Cons] show ?thesis by auto
  qed
qed

lemma extract_char_in_rdbuf: "snd (extract_char s) = Some c \<Longrightarrow> c \<in> set (rdbuf s)"
proof (cases "good s")
  case False
  assume "snd (extract_char s) = Some c"
  with False show ?thesis by (simp add: extract_char_def)
next
  case True
  assume a: "snd (extract_char s) = Some c"
  show ?thesis
  proof (cases "dropWhile isspace (rdbuf s)")
    case Nil
    from extract_char_None [OF True Nil] a show ?thesis by simp
  next
    case (Cons c' rest)
    have "set (dropWhile isspace (rdbuf s)) \<subseteq> set (rdbuf s)"
      by (rule set_dropWhileD [THEN subsetI])
    with Cons extract_char_Some [OF True Cons] a show ?thesis by auto
  qed
qed

lemma extract_char_failed: "snd (extract_char s) = None \<Longrightarrow> failbit (fst (extract_char s))"
proof (cases "good s")
  case False
  then show ?thesis by (simp add: extract_char_def)
next
  case True
  assume a: "snd (extract_char s) = None"
  show ?thesis
  proof (cases "dropWhile isspace (rdbuf s)")
    case Nil
    from extract_char_None [OF True Nil] show ?thesis by simp
  next
    case (Cons c' rest)
    from extract_char_Some [OF True Cons] a show ?thesis by simp
  qed
qed

lemma loop_fails_without_lt:
  "CHR ''<'' \<notin> set (rdbuf s) \<Longrightarrow> (case iter of None \<Rightarrow> failbit s | Some c \<Rightarrow> c \<noteq> CHR ''<'') \<Longrightarrow>
   failbit (fst (SubsampleClassifications_loop s iter ssn cn idx res))"
proof (induction s iter ssn cn idx res rule: SubsampleClassifications_loop_induct)
  case (1 s ssn className index result)
  then show ?case by simp
next
  case (2 s nextChar ssn className index result)
  have inv: "CHR ''<'' \<notin> set (rdbuf (fst (extract_char s)))"
    "case snd (extract_char s) of None \<Rightarrow> failbit (fst (extract_char s)) | Some c \<Rightarrow> c \<noteq> CHR ''<''"
    using 2(3) extract_char_rdbuf_subset [of s] extract_char_in_rdbuf [of s]
      extract_char_failed [of s]
    by (auto split: option.splits)
  from 2(4) have ne: "nextChar \<noteq> CHR ''<''" by simp
  show ?case
    using ne 2(1) [OF _ refl _ inv] 2(2) [OF _ inv]
    by (simp add: Let_def)
qed

lemma body_fails_without_lt:
  "CHR ''<'' \<notin> set (rdbuf s) \<Longrightarrow> failbit (fst (SubsampleClassifications s ssn))"
  unfolding SubsampleClassifications_unfold
  using extract_char_rdbuf_subset [of s] extract_char_in_rdbuf [of s]
    extract_char_failed [of s]
  by (intro loop_fails_without_lt) (auto split: option.splits)

lemma ClassificationList_unterminated:
  assumes "CHR ''<'' \<notin> set body"
  shows "ClassificationList (istream_of (''<CLASS>'' @ body)) =
         [snd (SubsampleClassifications (istream_of body) 1)]"
proof -
  have g: "good (istream_of (''<CLASS>'' @ body))" by (simp add: good_def istream_of_def)
  have e: "getline (istream_of (''<CLASS>'' @ body)) [] (CHR ''>'') = (istream_of body, ''<CLASS'')"
    using getline_open_tag [OF g, of body "[]"] by (simp add: istream_of_def)
  have f: "failbit (fst (SubsampleClassifications (istream_of body) 1))"
    using assms by (intro body_fails_without_lt) (simp add: istream_of_def)
  have nf: "\<not> failbit (istream_of body)" by (simp add: istream_of_def)
  show ?thesis
    unfolding ClassificationList_def
    by (subst ClassificationList_loop_unfold)
      (use e in \<open>simp add: nf trim_left_tags loop_failed [OF f]\<close>)
qed

lemma loop_members:
  "sub \<in> set (ClassificationList_loop s input ssn cls) \<Longrightarrow>
   sub \<in> set cls \<or> (\<exists>s' ssn'. sub = snd (SubsampleClassifications s' ssn'))"
proof (induction s input ssn cls rule: ClassificationList_loop_induct)
  case (1 stream input ssn classifications)
  from 1(3) show ?case
    by (subst (asm) ClassificationList_loop_unfold)
      (auto split: if_splits dest: 1(1) 1(2))
qed

lemma ClassificationList_members:
  "sub \<in> set (ClassificationList s) \<Longrightarrow> \<exists>ssn cs. sub = emitted ssn 0 [] cs"
proof -
  assume "sub \<in> set (ClassificationList s)"
  then obtain s' ssn' where "sub = snd (SubsampleClassifications s' ssn')"
    using loop_members [of sub s "[]" 0 "[]"] by (auto simp: ClassificationList_def)
  then have "sub = emitted ssn' 0 [] (if good s' then nonspace (rdbuf s') else [])"
    by (simp add: body_emitted)
  then show ?thesis by blast
qed

subsection \<open>A subsample of commas only\<close>

lemma nonspace_commas: "nonspace (replicate n (CHR '','')) = replicate n (CHR '','')"
  by (induction n) (simp_all add: nonspace_def isspace_def)

lemma scanned_commas: "scanned (replicate n (CHR '','')) = replicate n (CHR '','')"
  by (induction n) (simp_all add: scanned_Nil scanned_Cons)

lemma delims_commas: "filter is_delim (replicate n (CHR '','')) = replicate n (CHR '','')"
  by (induction n) (simp_all add: is_delim_def)

lemma commas_subsample:
  "ClassificationList (istream_of (''<CLASS>'' @ replicate n (CHR '','')))
     = [emitted 1 0 [] (replicate n (CHR '',''))]
   \<and> length (emitted 1 0 [] (replicate n (CHR '',''))) = n"
proof -
  have "CHR ''<'' \<notin> set (replicate n (CHR '',''))" by simp
  from ClassificationList_unterminated [OF this] show ?thesis
    by (simp add: body_emitted good_def istream_of_def nonspace_commas length_emitted
        scanned_commas delims_commas)
qed

subsection \<open>The record of one token\<close>

lemma emitted_token:
  "\<forall>c\<in>set tok. \<not> is_delim c \<Longrightarrow> is_delim d \<Longrightarrow>
   emitted ssn idx cn (tok @ d # rest) =
     \<lparr>subsampleNumber = ssn, patchIndex = idx,
      classification = (if cn @ tok \<noteq> [] then cn @ tok else ''NONE'')\<rparr>
     # (if d = CHR ''<'' then [] else emitted ssn (idx + 1) [] rest)"
proof (induction tok arbitrary: cn)
  case Nil
  then show ?case by (auto simp: is_delim_def)
next
  case (Cons c tok)
  from Cons.prems have "\<not> is_delim c" by simp
  then have c: "c \<noteq> CHR '',''" "c \<noteq> CHR ''<''" by (auto simp: is_delim_def)
  from Cons.prems have "\<forall>c\<in>set tok. \<not> is_delim c" by simp
  from Cons.IH [OF this Cons.prems(2), of "cn @ [c]"] c show ?case by simp
qed

lemma emitted_append_comma:
  "CHR ''<'' \<notin> set xs \<Longrightarrow>
   emitted ssn idx cn (xs @ CHR '','' # ys) =
     emitted ssn idx cn (xs @ '','') @
     emitted ssn (idx + of_nat (length (filter is_delim (xs @ '','')))) [] ys"
proof (induction xs arbitrary: idx cn)
  case Nil
  then show ?case by (simp add: is_delim_def)
next
  case (Cons x xs)
  then show ?case by (auto simp: is_delim_def algebra_simps)
qed

lemma length_emitted_no_lt:
  "CHR ''<'' \<notin> set xs \<Longrightarrow> length (emitted ssn idx cn xs) = length (filter is_delim xs)"
proof -
  assume "CHR ''<'' \<notin> set xs"
  then have "scanned xs = xs"
    by (induction xs) (auto simp: scanned_Nil scanned_Cons)
  then show ?thesis by (simp add: length_emitted)
qed

lemma emitted_after_prefix:
  assumes "CHR ''<'' \<notin> set pre" and "pre = [] \<or> last pre = CHR '',''"
  shows "emitted ssn 0 [] (pre @ ys) =
         emitted ssn 0 [] pre @ emitted ssn (of_nat (length (filter is_delim pre))) [] ys
         \<and> length (emitted ssn 0 [] pre) = length (filter is_delim pre)"
proof (cases "pre = []")
  case True
  then show ?thesis by simp
next
  case False
  with assms(2) obtain xs where pre: "pre = xs @ '',''"
    by (metis append_butlast_last_id)
  with assms(1) have x: "CHR ''<'' \<notin> set xs" by simp
  from emitted_append_comma [OF x, of ssn 0 "[]" ys] length_emitted_no_lt [OF assms(1)]
  show ?thesis by (simp add: pre)
qed

lemma nonspace_last_comma:
  "pre = [] \<or> last pre = CHR '','' \<Longrightarrow> nonspace pre = [] \<or> last (nonspace pre) = CHR '',''"
proof (cases "pre = []")
  case True
  then show ?thesis by (simp add: nonspace_def)
next
  case False
  assume "pre = [] \<or> last pre = CHR '',''"
  with False obtain xs where "pre = xs @ '',''" by (metis append_butlast_last_id)
  then show ?thesis by (simp add: nonspace_def isspace_def)
qed

subsection \<open>The label chains\<close>

lemma pclindex_le: "unat (pclindex l) \<le> 25"
  by (simp add: pclindex_def)

lemma aclindex_pclindex: "aclindex l = pclindex l"
  by (simp add: pclindex_def aclindex_def)

lemma pclindex_unknown: "l \<notin> set vocabulary \<Longrightarrow> pclindex l = 25"
  by (simp add: pclindex_def vocabulary_def)

lemma pclindex_vocabulary: "map pclindex vocabulary = map of_nat [0..<25]"
  by (simp add: pclindex_def vocabulary_def upt_rec)

lemma pclindex_known: "l \<in> set vocabulary \<Longrightarrow> pclindex l \<noteq> 25"
  by (auto simp: pclindex_def vocabulary_def)

subsection \<open>The loop that fills the matrix\<close>

lemma unat_count: "k < 2 ^ 32 \<Longrightarrow> unat (of_nat k :: u32) = k"
  by (simp add: unsigned_of_nat take_bit_nat_eq_self)

lemma sint_count: "c < 2 ^ 31 \<Longrightarrow> sint (of_nat c :: i32) = int c"
  by (simp add: signed_of_nat signed_take_bit_int_eq_self)

lemma pairs_0: "pairs pcl acl 0 = (\<lambda>i j. 0)"
  by (simp add: pairs_def fun_eq_iff)

lemma pairs_Suc:
  "pairs pcl acl (Suc k) i j =
     pairs pcl acl k i j +
     (if unat (pclindex (classification (pcl ! k))) = i \<and>
         unat (aclindex (classification (acl ! k))) = j then 1 else 0)"
  by (simp add: pairs_def)

lemma pairs_le: "pairs pcl acl n i j \<le> n"
  unfolding pairs_def using length_filter_le [of _ "[0..<n]"] by simp

lemma pairs_take:
  "pairs (take n pcl) (take n acl) n i j = pairs pcl acl n i j"
  unfolding pairs_def by (rule arg_cong [where f = length], rule filter_cong) simp_all

lemma add_counts_zero: "add_counts m (\<lambda>i j. 0) = m"
  by (simp add: add_counts_def)

lemma subsample_single: "subsample [xs] 1 = Some xs"
  by (simp add: subsample_def)

lemma count_not_max: "c < 2 ^ 31 - 1 \<Longrightarrow> (of_nat c :: i32) \<noteq> 2147483647"
proof
  assume c: "c < 2 ^ 31 - 1" and e: "(of_nat c :: i32) = 2147483647"
  from c have "sint (of_nat c :: i32) = int c" by (intro sint_count) simp
  with e have "int c = 2147483647" by simp
  with c show False by simp
qed

lemma increment_counts:
  assumes "k < 2 ^ 31 - 1"
  shows "increment (add_counts (Matrix d1 d2) (pairs pcl acl k))
           (pclindex (classification (pcl ! k))) (aclindex (classification (acl ! k)))
         = Returns (add_counts (Matrix d1 d2) (pairs pcl acl (Suc k)))"
proof -
  let ?i = "unat (pclindex (classification (pcl ! k)))"
  let ?j = "unat (aclindex (classification (acl ! k)))"
  from pairs_le [of pcl acl k ?i ?j] assms have "pairs pcl acl k ?i ?j < 2 ^ 31 - 1" by simp
  then have "(of_nat (pairs pcl acl k ?i ?j) :: i32) \<noteq> 2147483647" by (rule count_not_max)
  then show ?thesis
    by (auto simp: increment_def add_counts_def Matrix_def pairs_Suc fun_eq_iff)
qed

text \<open>
  The first \<open>k\<close> rounds of the loop, as long as no cell can have reached the largest
  \<^verbatim>\<open>int32_t\<close>: the matrix then holds the counts of the first \<open>k\<close> positions.
\<close>

lemma WriteSort_loop_prefix:
  assumes P: "subsample pclpatchlist s = Some pcl" and A: "subsample aclpatchlist s = Some acl"
    and n: "n = min (length pcl) (length acl)"
  shows "k \<le> n \<Longrightarrow> k < 2 ^ 31 \<Longrightarrow>
         WriteSort_loop pclpatchlist aclpatchlist s 0 (Matrix d1 d2) =
         WriteSort_loop pclpatchlist aclpatchlist s (of_nat k)
           (add_counts (Matrix d1 d2) (pairs pcl acl k))"
proof (induction k)
  case 0
  show ?case by (simp add: pairs_0 add_counts_zero)
next
  case (Suc k)
  then have kn: "k < n" and kb: "k < 2 ^ 31 - 1" by simp_all
  then have u: "unat (of_nat k :: u32) = k" by (intro unat_count) simp
  from kn n have lt: "k < length pcl" "k < length acl" by simp_all
  have c: "(of_nat k :: u32) + 1 = of_nat (Suc k)" by simp
  have "WriteSort_loop pclpatchlist aclpatchlist s 0 (Matrix d1 d2) =
        WriteSort_loop pclpatchlist aclpatchlist s (of_nat k)
          (add_counts (Matrix d1 d2) (pairs pcl acl k))"
    using Suc by simp
  also have "\<dots> = WriteSort_loop pclpatchlist aclpatchlist s (of_nat (Suc k))
          (add_counts (Matrix d1 d2) (pairs pcl acl (Suc k)))"
    by (subst WriteSort_loop.simps)
      (simp only: P A u lt option.case not_True_eq_False if_False c
        increment_counts [OF kb] outcome.case)
  finally show ?case .
qed

lemma WriteSort_conmatrix_run:
  assumes P: "subsample pclpatchlist s = Some pcl" and A: "subsample aclpatchlist s = Some acl"
    and n: "n = min (length pcl) (length acl)" and b: "n < 2 ^ 31"
  shows "WriteSort_conmatrix pclpatchlist aclpatchlist s =
           Some (Returns (add_counts (Matrix 26 26) (pairs pcl acl n)))"
proof -
  from b have u: "unat (of_nat n :: u32) = n" by (intro unat_count) simp
  have e: "\<not> n < length pcl \<or> \<not> n < length acl" using n by auto
  have "WriteSort_conmatrix pclpatchlist aclpatchlist s =
        WriteSort_loop pclpatchlist aclpatchlist s (of_nat n)
          (add_counts (Matrix 26 26) (pairs pcl acl n))"
    unfolding WriteSort_conmatrix_def
    using WriteSort_loop_prefix [OF P A n order_refl b] .
  also have "\<dots> = Some (Returns (add_counts (Matrix 26 26) (pairs pcl acl n)))"
    using e by (subst WriteSort_loop.simps) (auto simp: P A u)
  finally show ?thesis .
qed

lemma count_in_cell_run:
  assumes "subsample pclpatchlist s = Some pcl" and "subsample aclpatchlist s = Some acl"
    and "n = min (length pcl) (length acl)" and "n < 2 ^ 31"
  shows "count_in_cell (WriteSort_conmatrix pclpatchlist aclpatchlist s) i j =
           Some (int (pairs pcl acl n i j))"
proof -
  from pairs_le [of pcl acl n i j] assms(4) have "pairs pcl acl n i j < 2 ^ 31" by simp
  then have "sint (of_nat (pairs pcl acl n i j) :: i32) = int (pairs pcl acl n i j)"
    by (rule sint_count)
  then show ?thesis
    by (simp add: WriteSort_conmatrix_run [OF assms] count_in_cell_def add_counts_def
        Matrix_def)
qed

text \<open>The round in which a cell that holds the largest \<^verbatim>\<open>int32_t\<close> is incremented.\<close>

lemma WriteSort_conmatrix_overflow:
  assumes P: "subsample pclpatchlist s = Some pcl" and A: "subsample aclpatchlist s = Some acl"
    and n: "n = min (length pcl) (length acl)" and k: "k < n" "k = 2 ^ 31 - 1"
    and c: "pairs pcl acl k (unat (pclindex (classification (pcl ! k))))
              (unat (aclindex (classification (acl ! k)))) = k"
  shows "WriteSort_conmatrix pclpatchlist aclpatchlist s = Some Undefined_behaviour"
proof -
  from k have kb: "k < 2 ^ 31" by simp
  then have u: "unat (of_nat k :: u32) = k" by (intro unat_count) simp
  from k n have lt: "k < length pcl" "k < length acl" by simp_all
  have m: "(of_nat k :: i32) = 2147483647" using k(2) by simp
  have i: "increment (add_counts (Matrix 26 26) (pairs pcl acl k))
           (pclindex (classification (pcl ! k))) (aclindex (classification (acl ! k)))
         = Undefined_behaviour"
    by (simp add: increment_def add_counts_def Matrix_def c m)
  have "WriteSort_conmatrix pclpatchlist aclpatchlist s =
        WriteSort_loop pclpatchlist aclpatchlist s (of_nat k)
          (add_counts (Matrix 26 26) (pairs pcl acl k))"
    unfolding WriteSort_conmatrix_def
    using WriteSort_loop_prefix [OF P A n _ kb] k(1) by simp
  also have "\<dots> = Some Undefined_behaviour"
    by (subst WriteSort_loop.simps)
      (simp only: P A u lt option.case not_True_eq_False if_False i outcome.case)
  finally show ?thesis .
qed

subsection \<open>A subsample of equal labels\<close>

lemma emitted_uniform:
  assumes "\<forall>c\<in>set l. \<not> is_delim c" and "l \<noteq> []"
  shows "emitted 1 idx [] (concat (replicate n (l @ '',''))) =
         map (\<lambda>k. \<lparr>subsampleNumber = 1, patchIndex = idx + of_nat k, classification = l\<rparr>) [0..<n]"
proof (induction n arbitrary: idx)
  case 0
  show ?case by simp
next
  case (Suc n)
  have d: "is_delim (CHR '','')" by (simp add: is_delim_def)
  have "emitted 1 idx [] (concat (replicate (Suc n) (l @ '',''))) =
        emitted 1 idx [] (l @ CHR '','' # concat (replicate n (l @ '','')))"
    by simp
  also have "\<dots> = \<lparr>subsampleNumber = 1, patchIndex = idx, classification = l\<rparr>
        # emitted 1 (idx + 1) [] (concat (replicate n (l @ '','')))"
    using emitted_token [OF assms(1) d, of 1 idx "[]"] assms(2) by simp
  also have "\<dots> = \<lparr>subsampleNumber = 1, patchIndex = idx, classification = l\<rparr>
        # map (\<lambda>k. \<lparr>subsampleNumber = 1, patchIndex = idx + 1 + of_nat k, classification = l\<rparr>) [0..<n]"
    by (simp only: Suc.IH)
  also have "\<dots> = map (\<lambda>k. \<lparr>subsampleNumber = 1, patchIndex = idx + of_nat k, classification = l\<rparr>)
        [0..<Suc n]"
    by (simp add: upt_conv_Cons map_Suc_upt [symmetric] del: upt_Suc add: algebra_simps)
  finally show ?case .
qed

lemma nonspace_uniform:
  "\<forall>c\<in>set l. \<not> isspace c \<Longrightarrow>
   nonspace (concat (replicate n (l @ '',''))) = concat (replicate n (l @ '',''))"
  by (induction n) (auto simp: nonspace_def isspace_def filter_id_conv)

lemma ClassificationList_uniform:
  assumes "\<forall>c\<in>set l. \<not> is_delim c" and "\<forall>c\<in>set l. \<not> isspace c" and "l \<noteq> []"
  shows "ClassificationList (istream_of (uniform_stream l n)) = [uniform_records l n]"
proof -
  have "CHR ''<'' \<notin> set (concat (replicate n (l @ '','')))"
    using assms(1) by (auto simp: is_delim_def)
  from ClassificationList_unterminated [OF this] emitted_uniform [OF assms(1,3), of 0 n]
    nonspace_uniform [OF assms(2), of n]
  show ?thesis
    by (simp add: uniform_stream_def uniform_records_def body_emitted good_def istream_of_def)
qed

lemma length_uniform_records: "length (uniform_records l n) = n"
  by (simp add: uniform_records_def)

lemma pairs_uniform_RBC:
  "k \<le> n \<Longrightarrow> pairs (uniform_records ''RBC'' n) (uniform_records ''RBC'' n) k 0 0 = k"
proof -
  assume "k \<le> n"
  then have
    "filter (\<lambda>q. unat (pclindex (classification (uniform_records ''RBC'' n ! q))) = 0 \<and>
                  unat (aclindex (classification (uniform_records ''RBC'' n ! q))) = 0) [0..<k]
     = [0..<k]"
    by (intro filter_True) (simp add: uniform_records_def pclindex_def aclindex_def)
  then show ?thesis by (simp add: pairs_def)
qed

lemma uniform_RBC_overflow:
  assumes "2 ^ 31 \<le> n"
  shows "WriteSort_conmatrix (ClassificationList (istream_of (uniform_stream ''RBC'' n)))
               (ClassificationList (istream_of (uniform_stream ''RBC'' n))) 1
         = Some Undefined_behaviour
    \<and> length (hd (ClassificationList (istream_of (uniform_stream ''RBC'' n)))) = n
    \<and> pairs (hd (ClassificationList (istream_of (uniform_stream ''RBC'' n))))
         (hd (ClassificationList (istream_of (uniform_stream ''RBC'' n)))) n 0 0 = n"
proof -
  let ?rs = "uniform_records ''RBC'' n"
  define k :: nat where "k = 2 ^ 31 - 1"
  have kn: "k < n" using assms by (simp add: k_def)
  have c: "ClassificationList (istream_of (uniform_stream ''RBC'' n)) = [?rs]"
    by (rule ClassificationList_uniform) (simp_all add: is_delim_def isspace_def)
  have m: "n = min (length ?rs) (length ?rs)"
    by (simp add: length_uniform_records)
  have z: "unat (pclindex (classification (?rs ! k))) = 0"
    "unat (aclindex (classification (?rs ! k))) = 0"
    using kn by (simp_all add: uniform_records_def pclindex_def aclindex_def)
  have p: "pairs ?rs ?rs k (unat (pclindex (classification (?rs ! k))))
             (unat (aclindex (classification (?rs ! k)))) = k"
    using kn by (simp only: z pairs_uniform_RBC [OF less_imp_le])
  from WriteSort_conmatrix_overflow [OF subsample_single subsample_single m kn k_def p]
  show ?thesis
    by (simp add: c pairs_uniform_RBC length_uniform_records)
qed

subsection \<open>Selectors, the written text and the dimensions\<close>

lemma subsample_in_range:
  "subsample cls s = (if in_range cls s then Some (cls ! (unat s - 1)) else None)"
proof (cases "s = 0")
  case True
  then show ?thesis by (simp add: subsample_def in_range_def)
next
  case False
  then have "unat s \<noteq> 0" by (simp add: unat_eq_zero)
  then have "1 \<le> unat s" by simp
  with False show ?thesis by (auto simp: subsample_def in_range_def)
qed

lemma fold_append: "fold (\<lambda>j fp. fp @ f j) xs fp = fp @ concat (map f xs)"
  by (induction xs arbitrary: fp) simp_all

lemma fprintf_row_text: "fprintf_row m i fp = fp @ row_text m i"
  by (simp add: fprintf_row_def row_text_def fold_append)

lemma fold_rows: "fold (fprintf_row m) xs fp = fp @ concat (map (row_text m) xs)"
  by (induction xs arbitrary: fp) (simp_all add: fprintf_row_text)

lemma fprintf_matrix_text: "fprintf_matrix m fp = fp @ matrix_text m"
  by (simp add: fprintf_matrix_def matrix_text_def fold_rows)

lemma decimal_chars: "set (decimal n) \<subseteq> set ''0123456789''"
proof (induction n rule: decimal.induct)
  case (1 n)
  have d: "''0123456789'' ! k \<in> set ''0123456789''" if "k < 10" for k
    using that by (intro nth_mem) simp
  show ?case
  proof (cases "n < 10")
    case True
    with d [of n] show ?thesis by (subst decimal.simps) simp
  next
    case False
    with 1 d [of "n mod 10"] show ?thesis by (subst decimal.simps) simp
  qed
qed

lemma decimal_no_newline: "CHR 0x0A \<notin> set (decimal n)"
proof
  assume "CHR 0x0A \<in> set (decimal n)"
  with decimal_chars [of n] have "CHR 0x0A \<in> set ''0123456789''" by blast
  then show False by simp
qed

lemma printf_d_no_newline: "filter (\<lambda>c. c = CHR 0x0A) (printf_d v) = []"
proof (cases "sint v < 0")
  case True
  with decimal_no_newline [of "nat (- sint v)"] show ?thesis
    by (auto simp: printf_d_def filter_empty_conv)
next
  case False
  with decimal_no_newline [of "nat (sint v)"] show ?thesis
    by (auto simp: printf_d_def filter_empty_conv)
qed

lemma row_text_newlines: "length (filter (\<lambda>c. c = CHR 0x0A) (row_text m i)) = 1"
proof -
  have "filter (\<lambda>c. c = CHR 0x0A) (concat (map (\<lambda>j. printf_d (cell m i j) @ [CHR 0x09]) xs)) = []"
    for xs
    by (induction xs) (simp_all add: printf_d_no_newline)
  then show ?thesis by (simp add: row_text_def)
qed

lemma matrix_text_newlines: "length (filter (\<lambda>c. c = CHR 0x0A) (matrix_text m)) = Dim1 m"
proof -
  have "length (filter (\<lambda>c. c = CHR 0x0A) (concat (map (row_text m) xs))) = length xs" for xs
    by (induction xs) (simp_all add: row_text_newlines)
  from this [of "[0..<Dim1 m]"] show ?thesis by (simp add: matrix_text_def)
qed

lemma WriteSort_loop_Dim:
  assumes "WriteSort_loop pclpatchlist aclpatchlist s c m = Some r"
  shows "case r of Undefined_behaviour \<Rightarrow> True
    | Returns m' \<Rightarrow> Dim1 m' = Dim1 m \<and> Dim2 m' = Dim2 m"
  using assms
proof (induct rule: WriteSort_loop.raw_induct [rotated, consumes 1, case_names step])
  case (step f pclpatchlist aclpatchlist subsamplenumber count conmatrix r)
  show ?case
  proof (cases "subsample pclpatchlist subsamplenumber")
    case None
    with step(2) show ?thesis by auto
  next
    case pcl: (Some pcl)
    show ?thesis
    proof (cases "unat count < length pcl")
      case False
      with step(2) pcl show ?thesis by auto
    next
      case lt: True
      show ?thesis
      proof (cases "subsample aclpatchlist subsamplenumber")
        case None
        with step(2) pcl lt show ?thesis by auto
      next
        case acl: (Some acl)
        show ?thesis
        proof (cases "unat count < length acl")
          case False
          with step(2) pcl lt acl show ?thesis by auto
        next
          case ltc: True
          show ?thesis
          proof (cases "increment conmatrix (pclindex (classification (pcl ! unat count)))
                  (aclindex (classification (acl ! unat count)))")
            case Undefined_behaviour
            with step(2) pcl lt acl ltc show ?thesis by auto
          next
            case (Returns conmatrix')
            with step(2) pcl lt acl ltc have
              "f pclpatchlist aclpatchlist subsamplenumber (count + 1) conmatrix' = Some r"
              by simp
            from step(1) [OF this] Returns show ?thesis
              by (auto simp: increment_def split: outcome.splits if_splits)
          qed
        qed
      qed
    qed
  qed
qed

lemma WriteSort_conmatrix_Dim:
  "WriteSort_conmatrix pclpatchlist aclpatchlist s = Some (Returns m) \<Longrightarrow>
   Dim1 m = 26 \<and> Dim2 m = 26"
  using WriteSort_loop_Dim [of pclpatchlist aclpatchlist s 0 "Matrix 26 26" "Returns m"]
  by (simp add: WriteSort_conmatrix_def Matrix_def)

lemma WriteSort_Returns:
  "WriteSort pcl acl s (Some fp) = Some (Returns fp') \<Longrightarrow>
   \<exists>m. WriteSort_conmatrix (ClassificationList pcl) (ClassificationList acl) s = Some (Returns m)
     \<and> fp' = fp @ matrix_text m"
  by (auto simp: WriteSort_def WriteSort_write_def fprintf_matrix_text
      split: option.splits outcome.splits)

lemma WriteSort_conmatrix_out_of_range:
  "\<not> in_range pclpatchlist s \<Longrightarrow>
   WriteSort_conmatrix pclpatchlist aclpatchlist s = Some Undefined_behaviour"
  unfolding WriteSort_conmatrix_def
  by (subst WriteSort_loop.simps) (simp add: subsample_in_range)

lemma WriteSort_conmatrix_second_out_of_range:
  "in_range pclpatchlist s \<Longrightarrow> \<not> in_range aclpatchlist s \<Longrightarrow>
   WriteSort_conmatrix pclpatchlist aclpatchlist s =
     (if pclpatchlist ! (unat s - 1) = [] then Some (Returns (Matrix 26 26))
      else Some Undefined_behaviour)"
  unfolding WriteSort_conmatrix_def
  by (subst WriteSort_loop.simps) (simp add: subsample_in_range)

lemma zero_row_text: "row_text (Matrix d1 d2) i = concat (replicate d2 [CHR ''0'', CHR 0x09]) @ [CHR 0x0A]"
proof -
  have "decimal 0 = ''0''" by (subst decimal.simps) simp
  then have "printf_d 0 = ''0''" by (simp add: printf_d_def)
  then have "map (\<lambda>j. printf_d (cell (Matrix d1 d2) i j) @ [CHR 0x09]) [0..<d2] =
             replicate d2 [CHR ''0'', CHR 0x09]"
    by (simp add: Matrix_def map_replicate_const)
  then show ?thesis by (simp add: row_text_def Matrix_def)
qed

lemma zero_matrix_text:
  "matrix_text (Matrix d1 d2) =
     concat (replicate d1 (concat (replicate d2 [CHR ''0'', CHR 0x09]) @ [CHR 0x0A]))"
proof -
  have "row_text (Matrix d1 d2) =
        (\<lambda>i. concat (replicate d2 [CHR ''0'', CHR 0x09]) @ [CHR 0x0A])"
    by (simp add: fun_eq_iff zero_row_text)
  then have "map (row_text (Matrix d1 d2)) [0..<d1] =
        replicate d1 (concat (replicate d2 [CHR ''0'', CHR 0x09]) @ [CHR 0x0A])"
    by (simp add: map_replicate_const)
  then show ?thesis by (simp add: matrix_text_def Matrix_def)
qed

subsection \<open>The written text read back\<close>

lemma digit_code: "k < 10 \<Longrightarrow> of_char (''0123456789'' ! k) = (48 + k :: nat)"
proof -
  assume "k < 10"
  then have "k = 0 \<or> k = 1 \<or> k = 2 \<or> k = 3 \<or> k = 4 \<or> k = 5 \<or> k = 6 \<or> k = 7 \<or> k = 8 \<or> k = 9"
    by arith
  then show ?thesis by (elim disjE) simp_all
qed

lemma digit_is_digit: "k < 10 \<Longrightarrow> is_digit (''0123456789'' ! k)"
  by (simp add: is_digit_def digit_code)

lemma digit_zero: "k < 10 \<Longrightarrow> ''0123456789'' ! k = CHR ''0'' \<longleftrightarrow> k = 0"
proof -
  assume k: "k < 10"
  have "of_char (CHR ''0'') = (48 :: nat)" by simp
  with digit_code [OF k] show ?thesis by (cases "k = 0") auto
qed

lemma decimal_nonempty: "decimal n \<noteq> []"
  by (subst decimal.simps) simp

lemma decimal_digits: "list_all is_digit (decimal n)"
proof (induction n rule: decimal.induct)
  case (1 n)
  show ?case
  proof (cases "n < 10")
    case True
    then show ?thesis by (subst decimal.simps) (simp add: digit_is_digit)
  next
    case False
    with 1 show ?thesis by (subst decimal.simps) (simp add: digit_is_digit)
  qed
qed

lemma decimal_value: "foldl (\<lambda>n c. 10 * n + (of_char c - 48)) 0 (decimal n) = n"
proof (induction n rule: decimal.induct)
  case (1 n)
  show ?case
  proof (cases "n < 10")
    case True
    then show ?thesis by (subst decimal.simps) (simp add: digit_code)
  next
    case False
    with 1 show ?thesis by (subst decimal.simps) (simp add: digit_code)
  qed
qed

lemma decimal_hd: "0 < n \<Longrightarrow> hd (decimal n) \<noteq> CHR ''0''"
proof (induction n rule: decimal.induct)
  case (1 n)
  show ?case
  proof (cases "n < 10")
    case True
    with 1(2) digit_zero [of n] show ?thesis by (subst decimal.simps) (simp del: nth_Cons_numeral nth_Cons')
  next
    case False
    then have "0 < n div 10" by simp
    with 1(1) False have "hd (decimal (n div 10)) \<noteq> CHR ''0''" by simp
    with False decimal_nonempty [of "n div 10"] show ?thesis
      by (subst decimal.simps) simp
  qed
qed

lemma decimal_0: "decimal 0 = ''0''"
  by (subst decimal.simps) simp

lemma natural_of_decimal: "natural_of (decimal n) = Some n"
proof (cases "n = 0")
  case True
  then show ?thesis by (simp add: decimal_0 natural_of_def is_digit_def)
next
  case False
  then have "hd (decimal n) \<noteq> CHR ''0''" by (intro decimal_hd) simp
  then show ?thesis
    by (simp add: natural_of_def decimal_nonempty decimal_digits decimal_value)
qed

lemma decimal_no_minus: "hd (decimal n) \<noteq> CHR ''-''"
proof -
  from decimal_digits [of n] decimal_nonempty [of n] have "is_digit (hd (decimal n))"
    by (cases "decimal n") simp_all
  then show ?thesis by (auto simp: is_digit_def)
qed

lemma number_of_printf_d: "number_of (printf_d v) = Some (sint v)"
proof (cases "sint v < 0")
  case True
  then have "nat (- sint v) \<noteq> 0" by simp
  with True show ?thesis
    by (simp add: printf_d_def number_of_def natural_of_decimal)
next
  case False
  obtain c cs where d: "decimal (nat (sint v)) = c # cs"
    using decimal_nonempty [of "nat (sint v)"] by (cases "decimal (nat (sint v))") auto
  with decimal_no_minus [of "nat (sint v)"] have c: "c \<noteq> CHR ''-''" by simp
  from natural_of_decimal [of "nat (sint v)"] d have "natural_of (c # cs) = Some (nat (sint v))"
    by simp
  with False c d show ?thesis
    by (simp add: printf_d_def number_of_def)
qed

lemma printf_d_no_separator:
  assumes "\<not> is_digit d" "d \<noteq> CHR ''-''"
  shows "d \<notin> set (printf_d v)"
proof -
  have "d \<notin> set (decimal n)" for n
    using decimal_digits [of n] assms(1) by (auto simp: list_all_iff)
  with assms(2) show ?thesis by (simp add: printf_d_def)
qed

lemma printf_d_no_tab: "CHR 0x09 \<notin> set (printf_d v)"
  by (rule printf_d_no_separator) (simp_all add: is_digit_def)

lemma printf_d_no_line_feed: "CHR 0x0A \<notin> set (printf_d v)"
  by (rule printf_d_no_separator) (simp_all add: is_digit_def)

lemma terminated_piece:
  "d \<notin> set t \<Longrightarrow>
     terminated d piece (t @ d # rest) = map_option ((#) (piece @ t)) (terminated d [] rest)"
  by (induction t arbitrary: piece) auto

lemma terminated_pieces:
  "(\<And>x. x \<in> set xs \<Longrightarrow> d \<notin> set (f x)) \<Longrightarrow>
     terminated d [] (concat (map (\<lambda>x. f x @ [d]) xs)) = Some (map f xs)"
proof (induction xs)
  case Nil
  show ?case by simp
next
  case (Cons x xs)
  from Cons.prems have t: "d \<notin> set (f x)" by simp
  from Cons have r: "terminated d [] (concat (map (\<lambda>x. f x @ [d]) xs)) = Some (map f xs)" by simp
  from terminated_piece [OF t, of "[]" "concat (map (\<lambda>x. f x @ [d]) xs)"] r show ?case by simp
qed

lemma those_map_Some:
  "(\<And>x. x \<in> set xs \<Longrightarrow> f x = Some (g x)) \<Longrightarrow> those (map f xs) = Some (map g xs)"
  by (induction xs) simp_all

lemma read_row_numerals:
  "read_row (concat (map (\<lambda>j. printf_d (cell m i j) @ [CHR 0x09]) js))
     = Some (map (\<lambda>j. sint (cell m i j)) js)"
proof -
  have "terminated (CHR 0x09) [] (concat (map (\<lambda>j. printf_d (cell m i j) @ [CHR 0x09]) js))
     = Some (map (\<lambda>j. printf_d (cell m i j)) js)"
    by (rule terminated_pieces) (rule printf_d_no_tab)
  moreover have "those (map number_of (map (\<lambda>j. printf_d (cell m i j)) js))
     = Some (map (\<lambda>j. sint (cell m i j)) js)"
    unfolding map_map by (rule those_map_Some) (simp add: number_of_printf_d)
  ultimately show ?thesis by (simp add: read_row_def)
qed

lemma numerals_no_line_feed:
  "CHR 0x0A \<notin> set (concat (map (\<lambda>j. printf_d (cell m i j) @ [CHR 0x09]) js))"
  by (auto simp: printf_d_no_line_feed)

lemma read_table_rows:
  assumes "\<And>x. x \<in> set xs \<Longrightarrow> CHR 0x0A \<notin> set (f x)"
    and "\<And>x. x \<in> set xs \<Longrightarrow> read_row (f x) = Some (g x)"
  shows "read_table (concat (map (\<lambda>x. f x @ [CHR 0x0A]) xs)) = Some (map g xs)"
proof -
  have "terminated (CHR 0x0A) [] (concat (map (\<lambda>x. f x @ [CHR 0x0A]) xs)) = Some (map f xs)"
    by (rule terminated_pieces) (rule assms(1))
  moreover have "those (map read_row (map f xs)) = Some (map g xs)"
    unfolding map_map by (rule those_map_Some) (simp add: assms(2))
  ultimately show ?thesis by (simp add: read_table_def)
qed

lemma row_text_fun:
  "row_text m = (\<lambda>i. concat (map (\<lambda>j. printf_d (cell m i j) @ [CHR 0x09]) [0..<Dim2 m]) @ [CHR 0x0A])"
  by (simp add: fun_eq_iff row_text_def)

lemma read_table_matrix_text: "read_table (matrix_text m) = Some (table m)"
proof -
  have "read_table (concat (map (\<lambda>i. concat (map (\<lambda>j. printf_d (cell m i j) @ [CHR 0x09]) [0..<Dim2 m])
      @ [CHR 0x0A]) [0..<Dim1 m]))
    = Some (map (\<lambda>i. map (\<lambda>j. sint (cell m i j)) [0..<Dim2 m]) [0..<Dim1 m])"
    by (rule read_table_rows) (rule numerals_no_line_feed, rule read_row_numerals)
  then show ?thesis by (simp add: matrix_text_def row_text_fun table_def)
qed

lemma read_table_two_matrix_texts:
  "read_table (matrix_text m @ matrix_text m2) = Some (table m @ table m2)"
proof -
  let ?xs = "map (Pair m) [0..<Dim1 m] @ map (Pair m2) [0..<Dim1 m2]"
  have "read_table (concat (map (\<lambda>x. concat (map (\<lambda>j. printf_d (cell (fst x) (snd x) j) @ [CHR 0x09])
          [0..<Dim2 (fst x)]) @ [CHR 0x0A]) ?xs))
    = Some (map (\<lambda>x. map (\<lambda>j. sint (cell (fst x) (snd x) j)) [0..<Dim2 (fst x)]) ?xs)"
    by (rule read_table_rows) (rule numerals_no_line_feed, rule read_row_numerals)
  then show ?thesis by (simp add: matrix_text_def row_text_fun table_def comp_def)
qed

lemma digit_char: "is_digit c \<Longrightarrow> ''0123456789'' ! (of_char c - 48) = c"
proof -
  assume "is_digit c"
  then have k: "of_char c - 48 < (10 :: nat)" and e: "(48 :: nat) + (of_char c - 48) = of_char c"
    unfolding is_digit_def by linarith+
  from digit_code [OF k] e have "(of_char (''0123456789'' ! (of_char c - 48)) :: nat) = of_char c"
    by (simp only:)
  then show ?thesis by (simp only: of_char_eq_iff)
qed

lemma numeral_positive:
  "s \<noteq> [] \<Longrightarrow> list_all is_digit s \<Longrightarrow> hd s \<noteq> CHR ''0'' \<Longrightarrow>
   (0 :: nat) < foldl (\<lambda>n c. 10 * n + (of_char c - 48)) 0 s"
proof (induction s rule: rev_induct)
  case Nil
  then show ?case by simp
next
  case (snoc c xs)
  show ?case
  proof (cases "xs = []")
    case True
    with snoc.prems have d: "is_digit c" and z: "c \<noteq> CHR ''0''" by simp_all
    have "(of_char c :: nat) \<noteq> of_char (CHR ''0'')" using z by (simp only: of_char_eq_iff) simp
    then have "(of_char c :: nat) \<noteq> 48" by simp
    with d have "(0 :: nat) < of_char c - 48" unfolding is_digit_def by linarith
    with True show ?thesis by simp
  next
    case False
    with snoc show ?thesis by simp
  qed
qed

lemma decimal_numeral:
  "s \<noteq> [] \<Longrightarrow> list_all is_digit s \<Longrightarrow> length s = 1 \<or> hd s \<noteq> CHR ''0'' \<Longrightarrow>
   decimal (foldl (\<lambda>n c. 10 * n + (of_char c - 48)) 0 s) = s"
proof (induction s rule: rev_induct)
  case Nil
  then show ?case by simp
next
  case (snoc c xs)
  from snoc.prems have d: "is_digit c" by simp
  then have k: "of_char c - 48 < (10 :: nat)" unfolding is_digit_def by linarith
  show ?case
  proof (cases "xs = []")
    case True
    with k digit_char [OF d] show ?thesis by (subst decimal.simps) simp
  next
    case False
    with snoc.prems have h: "hd xs \<noteq> CHR ''0''" and a: "list_all is_digit xs" by auto
    from snoc.IH [OF False a] h have i: "decimal (foldl (\<lambda>n c. 10 * n + (of_char c - 48)) 0 xs) = xs"
      by simp
    from numeral_positive [OF False a h] have p: "(0 :: nat) < foldl (\<lambda>n c. 10 * n + (of_char c - 48)) 0 xs" .
    define v :: nat where "v = foldl (\<lambda>n c. 10 * n + (of_char c - 48)) 0 xs"
    define k' :: nat where "k' = of_char c - 48"
    from p k have "\<not> 10 * v + k' < 10" "(10 * v + k') div 10 = v" "(10 * v + k') mod 10 = k'"
      by (simp_all add: v_def k'_def)
    with i digit_char [OF d] show ?thesis
      by (subst decimal.simps) (simp add: v_def [symmetric] k'_def [symmetric])
  qed
qed

lemma natural_of_Some: "natural_of s = Some n \<Longrightarrow> decimal n = s"
  by (auto simp: natural_of_def decimal_numeral split: if_splits)

lemma number_of_Some: "number_of s = Some (sint v) \<Longrightarrow> s = printf_d v"
proof -
  assume a: "number_of s = Some (sint v)"
  then obtain c cs where s: "s = c # cs" by (cases s) (simp_all add: number_of_def)
  show ?thesis
  proof (cases "c = CHR ''-''")
    case True
    with a s obtain n where n: "natural_of cs = Some n" "n \<noteq> 0" "sint v = - int n"
      by (auto simp: number_of_def split: option.splits if_splits)
    from n(2,3) have "sint v < 0" "nat (- sint v) = n" by simp_all
    with natural_of_Some [OF n(1)] s True show ?thesis by (simp add: printf_d_def)
  next
    case False
    with a s obtain n where n: "natural_of s = Some n" "sint v = int n"
      by (fastforce simp: number_of_def)
    from n(2) have "\<not> sint v < 0" "nat (sint v) = n" by simp_all
    with natural_of_Some [OF n(1)] show ?thesis by (simp add: printf_d_def)
  qed
qed

lemma terminated_Some:
  "terminated d piece t = Some ps \<Longrightarrow> piece @ t = concat (map (\<lambda>p. p @ [d]) ps)"
proof (induction t arbitrary: piece ps)
  case Nil
  then show ?case by (simp split: if_splits)
next
  case (Cons c cs)
  show ?case
  proof (cases "c = d")
    case True
    with Cons.prems obtain ps' where "terminated d [] cs = Some ps'" "ps = piece # ps'"
      by auto
    with Cons.IH [of "[]" ps'] True show ?thesis by simp
  next
    case False
    with Cons.prems have "terminated d (piece @ [c]) cs = Some ps" by simp
    from Cons.IH [OF this] show ?thesis by simp
  qed
qed

lemma those_map_eq_Some:
  "those (map f xs) = Some (map g ys) \<Longrightarrow> (\<And>x y. f x = Some (g y) \<Longrightarrow> x = h y) \<Longrightarrow>
   xs = map h ys"
proof (induction xs arbitrary: ys)
  case Nil
  then show ?case by simp
next
  case (Cons x xs)
  from Cons.prems(1) obtain z zs where z: "f x = Some z" "those (map f xs) = Some zs"
      "map g ys = z # zs"
    by (auto split: option.splits)
  from z(3) obtain y ys' where y: "ys = y # ys'" "z = g y" "zs = map g ys'" by auto
  from Cons.IH [of ys'] z(2) y(3) Cons.prems(2) have "xs = map h ys'" by simp
  moreover from Cons.prems(2) [of x y] z(1) y(2) have "x = h y" by simp
  ultimately show ?case using y(1) by simp
qed

lemma read_row_Some:
  assumes "read_row line = Some (map (\<lambda>j. sint (cell m i j)) js)"
  shows "line = concat (map (\<lambda>j. printf_d (cell m i j) @ [CHR 0x09]) js)"
proof -
  from assms obtain ps where t: "terminated (CHR 0x09) [] line = Some ps"
    and n: "those (map number_of ps) = Some (map (\<lambda>j. sint (cell m i j)) js)"
    by (auto simp: read_row_def split: option.splits)
  from those_map_eq_Some [OF n, of "\<lambda>j. printf_d (cell m i j)"] number_of_Some
  have "ps = map (\<lambda>j. printf_d (cell m i j)) js" by blast
  with terminated_Some [OF t] show ?thesis by (simp add: comp_def)
qed

lemma read_table_Some:
  assumes "read_table text = Some (table m)"
  shows "text = matrix_text m"
proof -
  from assms obtain ps where t: "terminated (CHR 0x0A) [] text = Some ps"
    and n: "those (map read_row ps) =
      Some (map (\<lambda>i. map (\<lambda>j. sint (cell m i j)) [0..<Dim2 m]) [0..<Dim1 m])"
    by (auto simp: read_table_def table_def split: option.splits)
  from those_map_eq_Some [OF n,
      of "\<lambda>i. concat (map (\<lambda>j. printf_d (cell m i j) @ [CHR 0x09]) [0..<Dim2 m])"]
    read_row_Some
  have "ps = map (\<lambda>i. concat (map (\<lambda>j. printf_d (cell m i j) @ [CHR 0x09]) [0..<Dim2 m]))
      [0..<Dim1 m]"
    by blast
  with terminated_Some [OF t] show ?thesis
    by (simp add: comp_def matrix_text_def row_text_fun)
qed

lemma printf_d_small:
  "printf_d 0 = ''0''" "printf_d 1 = ''1''" "printf_d 2 = ''2''"
  by (simp_all add: printf_d_def) (subst decimal.simps, simp)+

lemma row_text_first_column:
  assumes z: "\<And>j. 0 < j \<Longrightarrow> cell m i j = 0" and d: "0 < Dim2 m"
  shows "row_text m i =
     printf_d (cell m i 0) @ [CHR 0x09] @ concat (replicate (Dim2 m - 1) [CHR ''0'', CHR 0x09])
       @ [CHR 0x0A]"
proof -
  from d have u: "[0..<Dim2 m] = 0 # [1..<Dim2 m]" by (simp add: upt_conv_Cons)
  have "map (\<lambda>j. printf_d (cell m i j) @ [CHR 0x09]) [1..<Dim2 m] =
        map (\<lambda>j. [CHR ''0'', CHR 0x09]) [1..<Dim2 m]"
    by (rule map_cong) (simp_all add: z printf_d_small)
  then have "map (\<lambda>j. printf_d (cell m i j) @ [CHR 0x09]) [1..<Dim2 m] =
        replicate (Dim2 m - 1) [CHR ''0'', CHR 0x09]"
    by (simp add: map_replicate_const)
  then show ?thesis unfolding row_text_def u by simp
qed

lemma matrix_text_first_rows:
  assumes r: "\<And>i. k \<le> i \<Longrightarrow> row_text m i = t" and d: "k \<le> Dim1 m"
  shows "matrix_text m = concat (map (row_text m) [0..<k]) @ concat (replicate (Dim1 m - k) t)"
proof -
  from d have u: "[0..<Dim1 m] = [0..<k] @ [k..<Dim1 m]"
    by (metis le_add_diff_inverse upt_add_eq_append zero_le)
  have "map (row_text m) [k..<Dim1 m] = map (\<lambda>i. t) [k..<Dim1 m]"
    by (rule map_cong) (simp_all add: r)
  then have "map (row_text m) [k..<Dim1 m] = replicate (Dim1 m - k) t"
    by (simp add: map_replicate_const)
  then show ?thesis unfolding matrix_text_def u by simp
qed

section \<open>Properties\<close>

text \<open>
  C5. For the subsample body \<open>A,,B<\<close> the parser yields exactly three records, with the
  labels A, NONE and B and the patch indices 0, 1 and 2: a non-empty token is emitted
  as its own label, an empty token between two delimiters with the label NONE. This
  holds for the body on its own, under any subsample number, and for the body inside
  a stream after its opening tag.
\<close>

theorem C5_body_A_empty_B:
  "snd (SubsampleClassifications (istream_of ''A,,B<'') ssn) =
     [\<lparr>subsampleNumber = ssn, patchIndex = 0, classification = ''A''\<rparr>,
      \<lparr>subsampleNumber = ssn, patchIndex = 1, classification = ''NONE''\<rparr>,
      \<lparr>subsampleNumber = ssn, patchIndex = 2, classification = ''B''\<rparr>]
   \<and> ClassificationList (istream_of ''<CLASS>A,,B<'') =
     [[\<lparr>subsampleNumber = 1, patchIndex = 0, classification = ''A''\<rparr>,
       \<lparr>subsampleNumber = 1, patchIndex = 1, classification = ''NONE''\<rparr>,
       \<lparr>subsampleNumber = 1, patchIndex = 2, classification = ''B''\<rparr>]]"
  by (simp add: SubsampleClassifications_def ClassificationList_def istream_of_def
      ClassificationList_loop.simps extract_char_def getline_def good_def isspace_def
      trim_left_def)

text \<open>
  C3, as stated, fails: a subsample body that is terminated by \<open><\<close> at once yields one
  record, labelled NONE, not zero records. The terminating \<open><\<close> is handled by the same
  branch as a comma and emits a record before the loop is left.
\<close>

theorem C3_counterexample:
  "snd (SubsampleClassifications (istream_of ''<'') 1) =
     [\<lparr>subsampleNumber = 1, patchIndex = 0, classification = ''NONE''\<rparr>]
   \<and> length (snd (SubsampleClassifications (istream_of ''<'') 1)) \<noteq> 0"
  by (simp add: SubsampleClassifications_def istream_of_def extract_char_def good_def
      isspace_def)

text \<open>
  C3, amended. The loop emits exactly one record for each delimiter it works through,
  the terminating \<open><\<close> included: on a good stream the number of records is the number
  of \<open>,\<close> and \<open><\<close> among the characters up to and including the first \<open><\<close>. A body
  that starts with \<open><\<close> therefore yields exactly one record, with the label NONE and the
  index 0.
\<close>

theorem C3_one_record_per_delimiter:
  "good s \<Longrightarrow>
   length (snd (SubsampleClassifications s ssn)) = length (filter is_delim (scanned (rdbuf s)))
   \<and> (\<forall>rest. rdbuf s = CHR ''<'' # rest \<longrightarrow>
        snd (SubsampleClassifications s ssn) =
          [\<lparr>subsampleNumber = ssn, patchIndex = 0, classification = ''NONE''\<rparr>])"
proof (intro conjI allI impI)
  assume g: "good s"
  then show "length (snd (SubsampleClassifications s ssn)) =
      length (filter is_delim (scanned (rdbuf s)))"
    by (simp add: body_emitted length_emitted scanned_nonspace)
  fix rest
  assume "rdbuf s = CHR ''<'' # rest"
  then have "nonspace (rdbuf s) = CHR ''<'' # nonspace rest"
    by (simp add: nonspace_def isspace_def)
  with g show "snd (SubsampleClassifications s ssn) =
      [\<lparr>subsampleNumber = ssn, patchIndex = 0, classification = ''NONE''\<rparr>]"
    by (simp add: body_emitted)
qed

theorem C3_one_record_per_delimiter_witness:
  "good (istream_of ''<'')
   \<and> length (snd (SubsampleClassifications (istream_of ''<'') 5)) = 1
   \<and> snd (SubsampleClassifications (istream_of ''<'') 5) =
        [\<lparr>subsampleNumber = 5, patchIndex = 0, classification = ''NONE''\<rparr>]"
  using C3_one_record_per_delimiter [of "istream_of ''<''" 5]
  by (simp add: good_def istream_of_def is_delim_def scanned_def)

text \<open>
  C1, as stated, fails: a stream with two \<open><CLASS>\<close> blocks, each opening tag ended by
  \<open>>\<close>, one right after the other, yields one subsample, not two. The \<open><\<close> that ends
  the first body is consumed, and so is the character after it, which the iterator
  has already fetched; what is left of the second tag does not read \<open><CLASS\<close>, and
  the rest of its line is discarded. The stream of the spec's end-to-end scenario, a
  line of other text followed by two such blocks, yields no subsample at all: the
  first \<^verbatim>\<open>getline\<close> reads across the line end up to the first \<open>>\<close>.
\<close>

theorem C1_counterexample:
  "ClassificationList (istream_of ''<CLASS>A,<CLASS>B,<'') =
     [[\<lparr>subsampleNumber = 1, patchIndex = 0, classification = ''A''\<rparr>,
       \<lparr>subsampleNumber = 1, patchIndex = 1, classification = ''NONE''\<rparr>]]
   \<and> length (ClassificationList (istream_of ''<CLASS>A,<CLASS>B,<'')) \<noteq> 2
   \<and> ClassificationList
        (istream_of (''junk line'' @ [CHR 0x0A] @ ''<CLASS>RBC,WBC,<CLASS>NONE,RBC,<'')) = []"
  by (simp add: SubsampleClassifications_def ClassificationList_def istream_of_def
      ClassificationList_loop.simps extract_char_def getline_def good_def isspace_def
      trim_left_def)

text \<open>
  C1, amended. For every stream made of \<open>k\<close> lines, each of the form \<open><CLASS>\<close>, body,
  \<open></CLASS>\<close>, line feed, with no \<open><\<close> inside a body, parsing yields exactly \<open>k\<close>
  subsamples in the order of the lines: the \<open>i\<close>-th subsample holds the records of the
  \<open>i\<close>-th body, and each of its records carries the subsample number \<open>i\<close>, counted
  from 1 as a 32-bit number.
\<close>

theorem C1_tagged_lines:
  assumes "\<forall>body\<in>set bodies. CHR ''<'' \<notin> set body"
  shows "length (ClassificationList (istream_of (concat (map class_line bodies)))) = length bodies
    \<and> (\<forall>i<length bodies.
          ClassificationList (istream_of (concat (map class_line bodies))) ! i =
            snd (SubsampleClassifications (istream_of (bodies ! i @ ''<'')) (of_nat (i + 1)))
          \<and> (\<forall>r\<in>set (ClassificationList (istream_of (concat (map class_line bodies))) ! i).
                subsampleNumber r = of_nat (i + 1)))"
proof -
  have g: "good (istream_of (concat (map class_line bodies)))"
    by (simp add: good_def istream_of_def)
  have "ClassificationList (istream_of (concat (map class_line bodies))) = blocks 0 bodies"
    unfolding ClassificationList_def
    using loop_class_lines [OF g _ assms, of "[]" 0 "[]"] by (simp add: istream_of_def)
  then show ?thesis
    by (auto simp: length_blocks blocks_nth dest: body_subsampleNumber)
qed

theorem C1_tagged_lines_witness:
  "CHR ''<'' \<notin> set ''RBC,WBC'' \<and> CHR ''<'' \<notin> set ''NONE''
   \<and> ClassificationList (istream_of (concat (map class_line [''RBC,WBC'', ''NONE'']))) =
       [[\<lparr>subsampleNumber = 1, patchIndex = 0, classification = ''RBC''\<rparr>,
         \<lparr>subsampleNumber = 1, patchIndex = 1, classification = ''WBC''\<rparr>],
        [\<lparr>subsampleNumber = 2, patchIndex = 0, classification = ''NONE''\<rparr>]]"
proof -
  have h: "\<forall>body\<in>set [''RBC,WBC'', ''NONE'']. CHR ''<'' \<notin> set body" by simp
  have b: "snd (SubsampleClassifications (istream_of (''RBC,WBC'' @ ''<'')) 1) =
        [\<lparr>subsampleNumber = 1, patchIndex = 0, classification = ''RBC''\<rparr>,
         \<lparr>subsampleNumber = 1, patchIndex = 1, classification = ''WBC''\<rparr>]"
    "snd (SubsampleClassifications (istream_of (''NONE'' @ ''<'')) 2) =
        [\<lparr>subsampleNumber = 2, patchIndex = 0, classification = ''NONE''\<rparr>]"
    by (simp_all add: SubsampleClassifications_def istream_of_def extract_char_def good_def
        isspace_def)
  from C1_tagged_lines [OF h] have
    l: "length (ClassificationList (istream_of (concat (map class_line [''RBC,WBC'', ''NONE''])))) = 2"
    and n: "\<And>i. i < 2 \<Longrightarrow>
          ClassificationList (istream_of (concat (map class_line [''RBC,WBC'', ''NONE'']))) ! i =
            snd (SubsampleClassifications (istream_of ([''RBC,WBC'', ''NONE''] ! i @ ''<''))
              (of_nat (i + 1)))"
    by simp_all
  from n [of 0] n [of 1] b have
    "ClassificationList (istream_of (concat (map class_line [''RBC,WBC'', ''NONE'']))) ! 0 =
        [\<lparr>subsampleNumber = 1, patchIndex = 0, classification = ''RBC''\<rparr>,
         \<lparr>subsampleNumber = 1, patchIndex = 1, classification = ''WBC''\<rparr>]"
    "ClassificationList (istream_of (concat (map class_line [''RBC,WBC'', ''NONE'']))) ! 1 =
        [\<lparr>subsampleNumber = 2, patchIndex = 0, classification = ''NONE''\<rparr>]"
    by simp_all
  with l h show ?thesis
    by (simp add: list_eq_iff_nth_eq less_Suc_eq numeral_2_eq_2)
qed

text \<open>
  C8. A stream that ends in a token with no \<open>,\<close> or \<open><\<close> after it is parsed to the
  end (the functions of the parser are total and have no undefined step), and the
  dangling token is discarded: appending such a token to any stream leaves the
  records of the subsample as they are, a body that consists of such a token alone
  gives no record, and at the level of the whole parser the list for a stream that
  ends inside a subsample is the same with and without the dangling token.
\<close>

theorem C8_dangling_token_discarded:
  assumes "\<forall>c\<in>set tok. \<not> is_delim c"
  shows "snd (SubsampleClassifications (s\<lparr>rdbuf := rdbuf s @ tok\<rparr>) ssn) =
           snd (SubsampleClassifications s ssn)
    \<and> snd (SubsampleClassifications (s\<lparr>rdbuf := tok\<rparr>) ssn) = []
    \<and> (CHR ''<'' \<notin> set body \<longrightarrow>
         ClassificationList (istream_of (''<CLASS>'' @ body @ tok)) =
           ClassificationList (istream_of (''<CLASS>'' @ body)))"
proof (intro conjI impI)
  from assms have nt: "\<forall>c\<in>set (nonspace tok). \<not> is_delim c"
    using set_nonspace [of tok] by auto
  show "snd (SubsampleClassifications (s\<lparr>rdbuf := rdbuf s @ tok\<rparr>) ssn) =
          snd (SubsampleClassifications s ssn)"
    by (simp add: body_emitted good_def nonspace_append emitted_dangling [OF nt])
  show "snd (SubsampleClassifications (s\<lparr>rdbuf := tok\<rparr>) ssn) = []"
    by (simp add: body_emitted emitted_no_delim [OF nt])
  assume b: "CHR ''<'' \<notin> set body"
  from assms have "CHR ''<'' \<notin> set tok" by (auto simp: is_delim_def)
  with b have bt: "CHR ''<'' \<notin> set (body @ tok)" by simp
  have "snd (SubsampleClassifications (istream_of (body @ tok)) 1) =
        snd (SubsampleClassifications (istream_of body) 1)"
    by (simp add: body_emitted good_def istream_of_def nonspace_append emitted_dangling [OF nt])
  with ClassificationList_unterminated [OF bt] ClassificationList_unterminated [OF b]
  show "ClassificationList (istream_of (''<CLASS>'' @ body @ tok)) =
          ClassificationList (istream_of (''<CLASS>'' @ body))"
    by simp
qed

theorem C8_dangling_token_discarded_witness:
  "filter is_delim ''WBC'' = []
   \<and> snd (SubsampleClassifications (istream_of ''RBC,WBC'') 1) =
       [\<lparr>subsampleNumber = 1, patchIndex = 0, classification = ''RBC''\<rparr>]
   \<and> snd (SubsampleClassifications (istream_of ''WBC'') 1) = []
   \<and> CHR ''<'' \<notin> set ''RBC,''
   \<and> ClassificationList (istream_of ''<CLASS>RBC,WBC'') =
       [[\<lparr>subsampleNumber = 1, patchIndex = 0, classification = ''RBC''\<rparr>]]"
proof -
  have h: "\<forall>c\<in>set ''WBC''. \<not> is_delim c" by (simp add: is_delim_def)
  have b: "snd (SubsampleClassifications (istream_of ''RBC,'') 1) =
       [\<lparr>subsampleNumber = 1, patchIndex = 0, classification = ''RBC''\<rparr>]"
    by (simp add: SubsampleClassifications_def istream_of_def extract_char_def good_def
        isspace_def)
  have c: "ClassificationList (istream_of ''<CLASS>RBC,'') =
       [[\<lparr>subsampleNumber = 1, patchIndex = 0, classification = ''RBC''\<rparr>]]"
    by (simp add: SubsampleClassifications_def ClassificationList_def istream_of_def
      ClassificationList_loop.simps extract_char_def getline_def good_def isspace_def
      trim_left_def)
  from C8_dangling_token_discarded [OF h, of "istream_of ''RBC,''" 1 "''RBC,''"] b c
  show ?thesis by (simp add: istream_of_def is_delim_def)
qed

text \<open>
  C9, as stated for every input stream, fails beyond the range of the index: it is a
  \<^verbatim>\<open>uint32_t\<close>, so in a subsample of \<open>2^32 + 1\<close> records the record at position
  \<open>2^32\<close> carries the index 0 again.
\<close>

theorem C9_counterexample:
  "2 ^ 32 < length (hd (ClassificationList (istream_of (''<CLASS>'' @ replicate (2 ^ 32 + 1) (CHR '','')))))
   \<and> unat (patchIndex
        (hd (ClassificationList (istream_of (''<CLASS>'' @ replicate (2 ^ 32 + 1) (CHR '','')))) ! (2 ^ 32)))
       = 0"
proof -
  define n :: nat where "n = 2 ^ 32 + 1"
  have n: "2 ^ 32 < n" by (simp add: n_def)
  have c: "hd (ClassificationList (istream_of (''<CLASS>'' @ replicate n (CHR '','')))) =
      emitted 1 0 [] (replicate n (CHR '',''))"
    and l: "length (emitted 1 0 [] (replicate n (CHR '',''))) = n"
    using commas_subsample [of n] by simp_all
  from n l have "2 ^ 32 < length (emitted 1 0 [] (replicate n (CHR '','')))" by simp
  from emitted_nth [OF this] have
    "patchIndex (emitted 1 0 [] (replicate n (CHR '','')) ! (2 ^ 32)) = (of_nat (2 ^ 32) :: u32)"
    by simp
  moreover have "(of_nat (2 ^ 32) :: u32) = 0" by simp
  ultimately have "unat (patchIndex (emitted 1 0 [] (replicate n (CHR '','')) ! (2 ^ 32))) = 0"
    by simp
  with n l c show ?thesis unfolding n_def by simp
qed

text \<open>
  C9, amended. In every subsample of a parsed list the record at position \<open>k\<close> carries
  the patch index \<open>k\<close> as a 32-bit number, whether or not a label stood before the
  delimiter; hence in every subsample of \<open>n \<le> 2^32\<close> records the patch indices are
  exactly 0, 1, ..., \<open>n - 1\<close> in order.
\<close>

theorem C9_patch_indices:
  assumes "sub \<in> set (ClassificationList s)"
  shows "(\<forall>k<length sub. patchIndex (sub ! k) = of_nat k)
    \<and> (length sub \<le> 2 ^ 32 \<longrightarrow> map (\<lambda>r. unat (patchIndex r)) sub = [0..<length sub])"
proof (intro conjI impI)
  from ClassificationList_members [OF assms]
  obtain ssn cs where sub: "sub = emitted ssn 0 [] cs" by blast
  show idx: "\<forall>k<length sub. patchIndex (sub ! k) = of_nat k"
    using emitted_nth [of _ ssn 0 "[]" cs] by (simp add: sub)
  assume le: "length sub \<le> 2 ^ 32"
  show "map (\<lambda>r. unat (patchIndex r)) sub = [0..<length sub]"
  proof (rule nth_equalityI)
    show "length (map (\<lambda>r. unat (patchIndex r)) sub) = length [0..<length sub]" by simp
  next
    fix k
    assume "k < length (map (\<lambda>r. unat (patchIndex r)) sub)"
    then have k: "k < length sub" by simp
    with le have "k < 2 ^ 32" by simp
    then have "unat (of_nat k :: u32) = k" by (simp add: unsigned_of_nat take_bit_nat_eq_self)
    with idx k show "map (\<lambda>r. unat (patchIndex r)) sub ! k = [0..<length sub] ! k"
      by simp
  qed
qed

theorem C9_patch_indices_witness:
  "ClassificationList (istream_of ''<CLASS>A,,B<'') =
     [[\<lparr>subsampleNumber = 1, patchIndex = 0, classification = ''A''\<rparr>,
       \<lparr>subsampleNumber = 1, patchIndex = 1, classification = ''NONE''\<rparr>,
       \<lparr>subsampleNumber = 1, patchIndex = 2, classification = ''B''\<rparr>]]
   \<and> map (\<lambda>r. unat (patchIndex r)) (hd (ClassificationList (istream_of ''<CLASS>A,,B<'')))
       = [0, 1, 2]"
proof -
  have c: "ClassificationList (istream_of ''<CLASS>A,,B<'') =
     [[\<lparr>subsampleNumber = 1, patchIndex = 0, classification = ''A''\<rparr>,
       \<lparr>subsampleNumber = 1, patchIndex = 1, classification = ''NONE''\<rparr>,
       \<lparr>subsampleNumber = 1, patchIndex = 2, classification = ''B''\<rparr>]]"
    by (simp add: SubsampleClassifications_def ClassificationList_def istream_of_def
      ClassificationList_loop.simps extract_char_def getline_def good_def isspace_def
      trim_left_def)
  then have m: "hd (ClassificationList (istream_of ''<CLASS>A,,B<''))
      \<in> set (ClassificationList (istream_of ''<CLASS>A,,B<''))"
    by simp
  from C9_patch_indices [OF m] c show ?thesis
    by (simp add: upt_rec)
qed

text \<open>
  C4, as stated, fails: whitespace between two delimiters is part of the stream but not
  of the label. The iterator extracts characters with \<^verbatim>\<open>>>\<close>, which skips whitespace,
  so the body \<open>A B,\<close> yields the label AB.
\<close>

theorem C4_counterexample:
  "snd (SubsampleClassifications (istream_of ''A B,'') 1) =
     [\<lparr>subsampleNumber = 1, patchIndex = 0, classification = ''AB''\<rparr>]
   \<and> classification (hd (snd (SubsampleClassifications (istream_of ''A B,'') 1))) \<noteq> ''A B''"
  by (simp add: SubsampleClassifications_def istream_of_def extract_char_def good_def
      isspace_def)

text \<open>
  C4, amended. Every character that the loop scans and that is not \<open>,\<close> or \<open><\<close> is
  appended to the token buffer, and whitespace is never scanned. Consequently the
  label emitted for a token equals the characters between its two enclosing
  delimiters (the start of the body counting as one) without the whitespace among
  them, and is NONE when nothing else is there. Here the token \<open>tok\<close> stands after a
  prefix \<open>pre\<close> that is empty or ends in a comma, before the delimiter \<open>d\<close>; its
  record is the one at the position given by the number of delimiters in \<open>pre\<close>.
\<close>

theorem C4_label_is_token_without_whitespace:
  assumes "good s" and "rdbuf s = pre @ tok @ d # rest"
    and "CHR ''<'' \<notin> set pre" and "pre = [] \<or> last pre = CHR '',''"
    and "\<forall>c\<in>set tok. \<not> is_delim c" and "is_delim d"
  shows "length (filter is_delim pre) < length (snd (SubsampleClassifications s ssn))
    \<and> classification (snd (SubsampleClassifications s ssn) ! length (filter is_delim pre)) =
        (if nonspace tok \<noteq> [] then nonspace tok else ''NONE'')"
proof -
  let ?k = "length (filter is_delim pre)"
  have ns: "nonspace (rdbuf s) = nonspace pre @ nonspace tok @ d # nonspace rest"
    using assms(2,6) is_delim_not_space [of d] by (simp add: nonspace_def)
  have p1: "CHR ''<'' \<notin> set (nonspace pre)" using assms(3) set_nonspace [of pre] by auto
  have p2: "nonspace pre = [] \<or> last (nonspace pre) = CHR '',''"
    using assms(4) by (rule nonspace_last_comma)
  have t: "\<forall>c\<in>set (nonspace tok). \<not> is_delim c" using assms(5) set_nonspace [of tok] by auto
  have k: "length (filter is_delim (nonspace pre)) = ?k" by (simp add: filter_delim_nonspace)
  from emitted_after_prefix [OF p1 p2, of ssn "nonspace tok @ d # nonspace rest"] k
  have split: "emitted ssn 0 [] (nonspace (rdbuf s)) =
      emitted ssn 0 [] (nonspace pre) @ emitted ssn (of_nat ?k) [] (nonspace tok @ d # nonspace rest)"
    and len: "length (emitted ssn 0 [] (nonspace pre)) = ?k"
    by (simp_all add: ns)
  from emitted_token [OF t assms(6), of ssn "of_nat ?k" "[]" "nonspace rest"]
  obtain more where tk: "emitted ssn (of_nat ?k) [] (nonspace tok @ d # nonspace rest) =
     \<lparr>subsampleNumber = ssn, patchIndex = of_nat ?k,
      classification = (if nonspace tok \<noteq> [] then nonspace tok else ''NONE'')\<rparr> # more"
    by simp
  from assms(1) split tk len show ?thesis
    by (simp add: body_emitted nth_append)
qed

theorem C4_label_is_token_without_whitespace_witness:
  "good (istream_of ''RBC, W BC ,x'')
   \<and> CHR ''<'' \<notin> set ''RBC,'' \<and> last ''RBC,'' = CHR '',''
   \<and> filter is_delim '' W BC '' = [] \<and> is_delim (CHR '','')
   \<and> classification (snd (SubsampleClassifications (istream_of ''RBC, W BC ,x'') 1) ! 1) = ''WBC''"
proof -
  have g: "good (istream_of ''RBC, W BC ,x'')" by (simp add: good_def istream_of_def)
  have r: "rdbuf (istream_of ''RBC, W BC ,x'') = ''RBC,'' @ '' W BC '' @ CHR '','' # ''x''"
    by (simp add: istream_of_def)
  have t: "\<forall>c\<in>set '' W BC ''. \<not> is_delim c" by (simp add: is_delim_def)
  have d: "is_delim (CHR '','')" by (simp add: is_delim_def)
  from C4_label_is_token_without_whitespace [OF g r _ _ t d, of 1] g d
  show ?thesis by (simp add: is_delim_def nonspace_def isspace_def)
qed

text \<open>
  C2, as stated for all parsed lists, fails beyond the range of the counters: a cell is
  an \<^verbatim>\<open>int32_t\<close>. Two lists parsed from one subsample of \<open>2^31\<close> tokens RBC agree at
  \<open>2^31\<close> positions, all of them mapped to cell \<open>[0][0]\<close>. The cell cannot hold that
  number: the last increment finds it at \<open>2^31 - 1\<close>, a signed overflow, and the run
  ends with no matrix. (From \<open>2^32\<close> positions on the \<^verbatim>\<open>uint32_t\<close> counter of the loop
  would wrap around as well.)
\<close>

theorem C2_counterexample:
  "length (hd (ClassificationList (istream_of (uniform_stream ''RBC'' (2 ^ 31))))) = 2 ^ 31
   \<and> pairs (hd (ClassificationList (istream_of (uniform_stream ''RBC'' (2 ^ 31)))))
        (hd (ClassificationList (istream_of (uniform_stream ''RBC'' (2 ^ 31))))) (2 ^ 31) 0 0 = 2 ^ 31
   \<and> WriteSort_conmatrix (ClassificationList (istream_of (uniform_stream ''RBC'' (2 ^ 31))))
        (ClassificationList (istream_of (uniform_stream ''RBC'' (2 ^ 31)))) 1
       = Some Undefined_behaviour
   \<and> count_in_cell
        (WriteSort_conmatrix (ClassificationList (istream_of (uniform_stream ''RBC'' (2 ^ 31))))
           (ClassificationList (istream_of (uniform_stream ''RBC'' (2 ^ 31)))) 1) 0 0
       = None"
proof -
  define n :: nat where "n = 2 ^ 31"
  have b: "2 ^ 31 \<le> n" by (simp add: n_def)
  from uniform_RBC_overflow [OF b] have
    "length (hd (ClassificationList (istream_of (uniform_stream ''RBC'' n)))) = n
     \<and> pairs (hd (ClassificationList (istream_of (uniform_stream ''RBC'' n))))
        (hd (ClassificationList (istream_of (uniform_stream ''RBC'' n)))) n 0 0 = n
     \<and> WriteSort_conmatrix (ClassificationList (istream_of (uniform_stream ''RBC'' n)))
        (ClassificationList (istream_of (uniform_stream ''RBC'' n))) 1
       = Some Undefined_behaviour
     \<and> count_in_cell
        (WriteSort_conmatrix (ClassificationList (istream_of (uniform_stream ''RBC'' n)))
           (ClassificationList (istream_of (uniform_stream ''RBC'' n))) 1) 0 0
       = None"
    by (simp add: count_in_cell_def)
  then show ?thesis unfolding n_def .
qed

text \<open>
  C2, amended. For two classification lists and a subsample selector within range for
  both, let \<open>n\<close> be the smaller of the two subsample lengths, and let \<open>n < 2^31\<close>. The
  loop ends, and afterwards cell \<open>[i][j]\<close> equals the number of positions \<open>k < n\<close> such
  that the label of the first list at \<open>k\<close> maps to \<open>i\<close> and the label of the second
  list at \<open>k\<close> maps to \<open>j\<close>. The positions from \<open>n\<close> on contribute to no cell: cutting
  both subsamples to their first \<open>n\<close> records gives the same matrix.
\<close>

theorem C2_matrix_counts:
  assumes "subsample pclpatchlist s = Some pcl" and "subsample aclpatchlist s = Some acl"
    and "n = min (length pcl) (length acl)" and "n < 2 ^ 31"
  shows "count_in_cell (WriteSort_conmatrix pclpatchlist aclpatchlist s) i j =
           Some (int (pairs pcl acl n i j))
    \<and> WriteSort_conmatrix [take n pcl] [take n acl] 1 =
        WriteSort_conmatrix pclpatchlist aclpatchlist s"
proof
  show "count_in_cell (WriteSort_conmatrix pclpatchlist aclpatchlist s) i j =
      Some (int (pairs pcl acl n i j))"
    using assms by (rule count_in_cell_run)
  have m: "n = min (length (take n pcl)) (length (take n acl))" using assms(3) by simp
  have "pairs (take n pcl) (take n acl) n = pairs pcl acl n"
    by (simp add: fun_eq_iff pairs_take)
  with WriteSort_conmatrix_run [OF subsample_single subsample_single m assms(4)]
    WriteSort_conmatrix_run [OF assms]
  show "WriteSort_conmatrix [take n pcl] [take n acl] 1 =
      WriteSort_conmatrix pclpatchlist aclpatchlist s"
    by simp
qed

theorem C2_matrix_counts_witness:
  "count_in_cell (WriteSort_conmatrix
     [[\<lparr>subsampleNumber = 1, patchIndex = 0, classification = ''RBC''\<rparr>,
       \<lparr>subsampleNumber = 1, patchIndex = 1, classification = ''WBC''\<rparr>,
       \<lparr>subsampleNumber = 1, patchIndex = 2, classification = ''WBC''\<rparr>]]
     [[\<lparr>subsampleNumber = 1, patchIndex = 0, classification = ''RBC''\<rparr>,
       \<lparr>subsampleNumber = 1, patchIndex = 1, classification = ''WBC''\<rparr>]] 1) 3 3 = Some 1
   \<and> count_in_cell (WriteSort_conmatrix
     [[\<lparr>subsampleNumber = 1, patchIndex = 0, classification = ''RBC''\<rparr>,
       \<lparr>subsampleNumber = 1, patchIndex = 1, classification = ''WBC''\<rparr>,
       \<lparr>subsampleNumber = 1, patchIndex = 2, classification = ''WBC''\<rparr>]]
     [[\<lparr>subsampleNumber = 1, patchIndex = 0, classification = ''RBC''\<rparr>,
       \<lparr>subsampleNumber = 1, patchIndex = 1, classification = ''WBC''\<rparr>]] 1) 3 0 = Some 0"
proof -
  let ?pcl = "[\<lparr>subsampleNumber = 1, patchIndex = 0, classification = ''RBC''\<rparr>,
       \<lparr>subsampleNumber = 1, patchIndex = 1, classification = ''WBC''\<rparr>,
       \<lparr>subsampleNumber = 1, patchIndex = 2, classification = ''WBC''\<rparr>]"
  let ?acl = "[\<lparr>subsampleNumber = 1, patchIndex = 0, classification = ''RBC''\<rparr>,
       \<lparr>subsampleNumber = 1, patchIndex = 1, classification = ''WBC''\<rparr>]"
  have n: "2 = min (length ?pcl) (length ?acl)" by simp
  have b: "(2::nat) < 2 ^ 31" by simp
  have p: "pairs ?pcl ?acl 2 3 3 = 1" "pairs ?pcl ?acl 2 3 0 = 0"
    by (simp_all add: pairs_def upt_rec pclindex_def aclindex_def)
  from C2_matrix_counts [OF subsample_single subsample_single n b, of 3 3]
    C2_matrix_counts [OF subsample_single subsample_single n b, of 3 0] p
  show ?thesis by simp
qed

text \<open>
  C6. The mapping from labels to indices is a function with values in 0..25, the same
  for both lists. It sends the 25 labels of the vocabulary to 0..24 in their order,
  by exact comparison of the strings (a label in another case, or with a space before
  or after it, does not match), and every other string, NONE among them, to 25.
\<close>

theorem C6_label_index:
  "unat (pclindex l) \<le> 25 \<and> unat (aclindex l) \<le> 25
   \<and> aclindex l = pclindex l
   \<and> (l = l' \<longrightarrow> pclindex l = pclindex l')
   \<and> map pclindex vocabulary = map of_nat [0..<25]
   \<and> (l \<notin> set vocabulary \<longrightarrow> pclindex l = 25)
   \<and> (l \<in> set vocabulary \<longrightarrow> pclindex l \<noteq> 25)
   \<and> pclindex ''NONE'' = 25
   \<and> pclindex ''rbc'' = 25 \<and> pclindex '' RBC'' = 25 \<and> pclindex ''RBC '' = 25
   \<and> pclindex ''RBC'' = 0"
proof -
  have "pclindex ''NONE'' = 25" "pclindex ''rbc'' = 25" "pclindex '' RBC'' = 25"
    "pclindex ''RBC '' = 25" "pclindex ''RBC'' = 0"
    by (simp_all add: pclindex_def)
  with pclindex_le [of l] aclindex_pclindex [of l] pclindex_vocabulary
    pclindex_unknown [of l] pclindex_known [of l]
  show ?thesis by simp
qed

theorem C6_label_index_witness:
  "pclindex ''Wbc'' = 25 \<and> aclindex ''Wbc'' = 25 \<and> ''Wbc'' \<notin> set vocabulary
   \<and> pclindex ''WBC'' = 3 \<and> aclindex ''WBC'' = 3 \<and> ''WBC'' \<in> set vocabulary"
  using C6_label_index [of "''Wbc''" "''Wbc''"] C6_label_index [of "''WBC''" "''WBC''"]
  by (simp add: vocabulary_def pclindex_def)

text \<open>
  C7, as stated, fails: the builder never validates the selector and has no error
  result. With a first list that holds one empty subsample (parsed from a stream that
  ends after \<open><CLASS>\<close>) and a second list without any subsample (parsed from an
  empty stream), selector 1 is out of range for the second list; the loop condition
  fails on the first list before the second is indexed, and \<^verbatim>\<open>WriteSort\<close> returns
  after writing the all-zero matrix.
\<close>

theorem C7_counterexample:
  "ClassificationList (istream_of ''<CLASS>'') = [[]]
   \<and> ClassificationList (istream_of []) = []
   \<and> in_range [[]] 1 \<and> \<not> in_range [] 1
   \<and> WriteSort (istream_of ''<CLASS>'') (istream_of []) 1 (Some []) =
       Some (Returns (concat (replicate 26
         (concat (replicate 26 [CHR ''0'', CHR 0x09]) @ [CHR 0x0A]))))"
proof -
  have p: "ClassificationList (istream_of ''<CLASS>'') = [[]]"
    and a: "ClassificationList (istream_of []) = []"
    by (simp_all add: SubsampleClassifications_def ClassificationList_def istream_of_def
      ClassificationList_loop.simps extract_char_def getline_def good_def isspace_def
      trim_left_def)
  have r: "in_range [[]] 1" "\<not> in_range [] 1" by (simp_all add: in_range_def)
  have "WriteSort_conmatrix [[]] [] 1 = Some (Returns (Matrix 26 26))"
    using WriteSort_conmatrix_second_out_of_range [OF r] by simp
  then have "WriteSort (istream_of ''<CLASS>'') (istream_of []) 1 (Some []) =
      Some (Returns (matrix_text (Matrix 26 26)))"
    by (simp add: WriteSort_def p a WriteSort_write_def fprintf_matrix_text)
  with p a r show ?thesis by (simp only: zero_matrix_text simp_thms)
qed

text \<open>
  C7, amended. The builder does not validate the selector and produces no error
  result. When the selector is out of range for the first list, the list is
  subscripted outside its bounds, which is undefined behaviour. When it is in range
  for the first list and out of range for the second, the outcome depends on the
  selected subsample of the first list: if it is empty, the second list is never
  subscripted and the builder returns the all-zero matrix; otherwise the second list
  is subscripted outside its bounds, again undefined behaviour.
\<close>

theorem C7_selector_not_validated:
  "(\<not> in_range pclpatchlist s \<longrightarrow>
      WriteSort_conmatrix pclpatchlist aclpatchlist s = Some Undefined_behaviour)
   \<and> (in_range pclpatchlist s \<and> \<not> in_range aclpatchlist s \<longrightarrow>
        WriteSort_conmatrix pclpatchlist aclpatchlist s =
          (if pclpatchlist ! (unat s - 1) = [] then Some (Returns (Matrix 26 26))
           else Some Undefined_behaviour))"
  using WriteSort_conmatrix_out_of_range [of pclpatchlist s aclpatchlist]
    WriteSort_conmatrix_second_out_of_range [of pclpatchlist s aclpatchlist]
  by simp

theorem C7_selector_not_validated_witness:
  "WriteSort_conmatrix [] [] 1 = Some Undefined_behaviour
   \<and> WriteSort_conmatrix [[]] [[]] 0 = Some Undefined_behaviour
   \<and> WriteSort_conmatrix [[]] [] 1 = Some (Returns (Matrix 26 26))
   \<and> WriteSort_conmatrix
        [[\<lparr>subsampleNumber = 1, patchIndex = 0, classification = ''RBC''\<rparr>]] [] 1
       = Some Undefined_behaviour"
  using C7_selector_not_validated [of "[]" 1 "[]"]
    C7_selector_not_validated [of "[[]]" 0 "[[]]"]
    C7_selector_not_validated [of "[[]]" 1 "[]"]
    C7_selector_not_validated
      [of "[[\<lparr>subsampleNumber = 1, patchIndex = 0, classification = ''RBC''\<rparr>]]" 1 "[]"]
  by (simp add: in_range_def)

text \<open>
  C10. Writing a matrix appends its text to what the file held: nothing of the earlier
  content is changed, and the text is one line per index of the first list (the row),
  each line the cells of the row in the order of the second list's index (the
  column), every cell as a decimal number followed by a tab, the last cell of a row
  too, then a line feed. The text holds the integers of the matrix: read back line by
  line and numeral by numeral it gives the cells as signed 32-bit integers, row by
  row, and it is the only text that reads back so. A run of \<^verbatim>\<open>WriteSort\<close> that returns
  has appended the 26 rows of its 26 by 26 matrix, and after two runs on the same
  file the file holds the earlier content, then the first matrix, then the second:
  what follows the earlier content reads back as the rows of the first matrix and
  then the rows of the second. The text is the characters handed to the C stream.
\<close>

theorem C10_rows_appended:
  "WriteSort_write (Some fp) conmatrix = Returns (fp @ matrix_text conmatrix)
   \<and> length (filter (\<lambda>c. c = CHR 0x0A) (matrix_text conmatrix)) = Dim1 conmatrix
   \<and> read_table (matrix_text conmatrix) = Some (table conmatrix)
   \<and> (read_table written = Some (table conmatrix) \<longleftrightarrow> written = matrix_text conmatrix)
   \<and> (WriteSort pcl acl s (Some fp) = Some (Returns fp') \<longrightarrow>
        (\<exists>m. WriteSort_conmatrix (ClassificationList pcl) (ClassificationList acl) s
                = Some (Returns m)
           \<and> Dim1 m = 26 \<and> Dim2 m = 26 \<and> fp' = fp @ matrix_text m
           \<and> read_table (drop (length fp) fp') = Some (table m)))
   \<and> (WriteSort pcl acl s (Some fp) = Some (Returns fp') \<and>
      WriteSort pcl2 acl2 s2 (Some fp') = Some (Returns fp'') \<longrightarrow>
        (\<exists>m m2. WriteSort_conmatrix (ClassificationList pcl) (ClassificationList acl) s
                   = Some (Returns m)
           \<and> WriteSort_conmatrix (ClassificationList pcl2) (ClassificationList acl2) s2
                   = Some (Returns m2)
           \<and> fp'' = fp @ matrix_text m @ matrix_text m2
           \<and> read_table (drop (length fp) fp'') = Some (table m @ table m2)))"
proof (intro conjI impI)
  show "WriteSort_write (Some fp) conmatrix = Returns (fp @ matrix_text conmatrix)"
    by (simp add: WriteSort_write_def fprintf_matrix_text)
  show "length (filter (\<lambda>c. c = CHR 0x0A) (matrix_text conmatrix)) = Dim1 conmatrix"
    by (rule matrix_text_newlines)
  show "read_table (matrix_text conmatrix) = Some (table conmatrix)"
    by (rule read_table_matrix_text)
  show "read_table written = Some (table conmatrix) \<longleftrightarrow> written = matrix_text conmatrix"
    using read_table_Some [of written conmatrix] read_table_matrix_text [of conmatrix] by blast
next
  assume "WriteSort pcl acl s (Some fp) = Some (Returns fp')"
  from WriteSort_Returns [OF this] obtain m where
    m: "WriteSort_conmatrix (ClassificationList pcl) (ClassificationList acl) s = Some (Returns m)"
    and f: "fp' = fp @ matrix_text m" by blast
  from f have "read_table (drop (length fp) fp') = Some (table m)"
    by (simp add: read_table_matrix_text)
  with m f WriteSort_conmatrix_Dim [OF m]
  show "\<exists>m. WriteSort_conmatrix (ClassificationList pcl) (ClassificationList acl) s
                = Some (Returns m)
           \<and> Dim1 m = 26 \<and> Dim2 m = 26 \<and> fp' = fp @ matrix_text m
           \<and> read_table (drop (length fp) fp') = Some (table m)"
    by blast
next
  assume a: "WriteSort pcl acl s (Some fp) = Some (Returns fp') \<and>
      WriteSort pcl2 acl2 s2 (Some fp') = Some (Returns fp'')"
  from a WriteSort_Returns [of pcl acl s fp fp'] obtain m where
    m: "WriteSort_conmatrix (ClassificationList pcl) (ClassificationList acl) s = Some (Returns m)"
    and f: "fp' = fp @ matrix_text m" by blast
  from a WriteSort_Returns [of pcl2 acl2 s2 fp' fp''] obtain m2 where
    m2: "WriteSort_conmatrix (ClassificationList pcl2) (ClassificationList acl2) s2 = Some (Returns m2)"
    and f2: "fp'' = fp' @ matrix_text m2" by blast
  from f f2 have f3: "fp'' = fp @ matrix_text m @ matrix_text m2" by simp
  then have "read_table (drop (length fp) fp'') = Some (table m @ table m2)"
    by (simp add: read_table_two_matrix_texts)
  with m m2 f3
  show "\<exists>m m2. WriteSort_conmatrix (ClassificationList pcl) (ClassificationList acl) s
                   = Some (Returns m)
           \<and> WriteSort_conmatrix (ClassificationList pcl2) (ClassificationList acl2) s2
                   = Some (Returns m2)
           \<and> fp'' = fp @ matrix_text m @ matrix_text m2
           \<and> read_table (drop (length fp) fp'') = Some (table m @ table m2)"
    by blast
qed

theorem C10_rows_appended_witness:
  "WriteSort_write (Some ''old'')
      \<lparr>Dim1 = 2, Dim2 = 3,
        cell = (\<lambda>i j. [[12, - 7, 0], [2147483647, - 2147483648, 305]] ! i ! j)\<rparr> =
     Returns (''old'' @
       ''12'' @ [CHR 0x09] @ ''-7'' @ [CHR 0x09] @ ''0'' @ [CHR 0x09, CHR 0x0A] @
       ''2147483647'' @ [CHR 0x09] @ ''-2147483648'' @ [CHR 0x09] @ ''305'' @ [CHR 0x09, CHR 0x0A])
   \<and> read_table
       (''12'' @ [CHR 0x09] @ ''-7'' @ [CHR 0x09] @ ''0'' @ [CHR 0x09, CHR 0x0A] @
        ''2147483647'' @ [CHR 0x09] @ ''-2147483648'' @ [CHR 0x09] @ ''305'' @ [CHR 0x09, CHR 0x0A]) =
     Some [[12, - 7, 0], [2147483647, - 2147483648, 305]]
   \<and> WriteSort (istream_of ''<CLASS>RBC,DRBC,RBC,'') (istream_of ''<CLASS>RBC,RBC,RBC,'') 1
       (Some ''old'') =
     Some (Returns (''old'' @
       ''2'' @ [CHR 0x09] @ concat (replicate 25 [CHR ''0'', CHR 0x09]) @ [CHR 0x0A] @
       ''1'' @ [CHR 0x09] @ concat (replicate 25 [CHR ''0'', CHR 0x09]) @ [CHR 0x0A] @
       concat (replicate 24 (concat (replicate 26 [CHR ''0'', CHR 0x09]) @ [CHR 0x0A]))))
   \<and> WriteSort (istream_of ''<CLASS>RBC,DRBC,RBC,'') (istream_of ''<CLASS>RBC,RBC,RBC,'') 1
       (Some (''old'' @
         ''2'' @ [CHR 0x09] @ concat (replicate 25 [CHR ''0'', CHR 0x09]) @ [CHR 0x0A] @
         ''1'' @ [CHR 0x09] @ concat (replicate 25 [CHR ''0'', CHR 0x09]) @ [CHR 0x0A] @
         concat (replicate 24 (concat (replicate 26 [CHR ''0'', CHR 0x09]) @ [CHR 0x0A])))) =
     Some (Returns (''old'' @
       ''2'' @ [CHR 0x09] @ concat (replicate 25 [CHR ''0'', CHR 0x09]) @ [CHR 0x0A] @
       ''1'' @ [CHR 0x09] @ concat (replicate 25 [CHR ''0'', CHR 0x09]) @ [CHR 0x0A] @
       concat (replicate 24 (concat (replicate 26 [CHR ''0'', CHR 0x09]) @ [CHR 0x0A])) @
       ''2'' @ [CHR 0x09] @ concat (replicate 25 [CHR ''0'', CHR 0x09]) @ [CHR 0x0A] @
       ''1'' @ [CHR 0x09] @ concat (replicate 25 [CHR ''0'', CHR 0x09]) @ [CHR 0x0A] @
       concat (replicate 24 (concat (replicate 26 [CHR ''0'', CHR 0x09]) @ [CHR 0x0A]))))
   \<and> read_table
       (''2'' @ [CHR 0x09] @ concat (replicate 25 [CHR ''0'', CHR 0x09]) @ [CHR 0x0A] @
        ''1'' @ [CHR 0x09] @ concat (replicate 25 [CHR ''0'', CHR 0x09]) @ [CHR 0x0A] @
        concat (replicate 24 (concat (replicate 26 [CHR ''0'', CHR 0x09]) @ [CHR 0x0A]))) =
     Some ((2 # replicate 25 0) # (1 # replicate 25 0) # replicate 24 (replicate 26 0))
   \<and> length (filter (\<lambda>c. c = CHR 0x0A)
       (''2'' @ [CHR 0x09] @ concat (replicate 25 [CHR ''0'', CHR 0x09]) @ [CHR 0x0A] @
        ''1'' @ [CHR 0x09] @ concat (replicate 25 [CHR ''0'', CHR 0x09]) @ [CHR 0x0A] @
        concat (replicate 24 (concat (replicate 26 [CHR ''0'', CHR 0x09]) @ [CHR 0x0A]))))
     = 26"
proof -
  let ?N = "\<lparr>Dim1 = 2, Dim2 = 3,
        cell = (\<lambda>i j. [[12, - 7, 0], [2147483647, - 2147483648, 305 :: i32]] ! i ! j)\<rparr>"
  let ?T = "''12'' @ [CHR 0x09] @ ''-7'' @ [CHR 0x09] @ ''0'' @ [CHR 0x09, CHR 0x0A] @
       ''2147483647'' @ [CHR 0x09] @ ''-2147483648'' @ [CHR 0x09] @ ''305'' @ [CHR 0x09, CHR 0x0A]"
  let ?P = "istream_of ''<CLASS>RBC,DRBC,RBC,''"
  let ?A = "istream_of ''<CLASS>RBC,RBC,RBC,''"
  let ?M = "\<lparr>Dim1 = 26, Dim2 = 26,
        cell = (\<lambda>i j. if i = 0 \<and> j = 0 then 2 else if i = 1 \<and> j = 0 then (1 :: i32) else 0)\<rparr>"
  let ?Z = "concat (replicate 26 [CHR ''0'', CHR 0x09]) @ [CHR 0x0A]"
  let ?L = "''2'' @ [CHR 0x09] @ concat (replicate 25 [CHR ''0'', CHR 0x09]) @ [CHR 0x0A] @
       ''1'' @ [CHR 0x09] @ concat (replicate 25 [CHR ''0'', CHR 0x09]) @ [CHR 0x0A] @
       concat (replicate 24 ?Z)"
  have dec: "decimal 12 = ''12''" "decimal 7 = ''7''" "decimal 0 = ''0''"
    "decimal 2147483647 = ''2147483647''" "decimal 2147483648 = ''2147483648''"
    "decimal 305 = ''305''"
    by (simp_all add: decimal.simps)
  have pr: "printf_d 12 = ''12''" "printf_d (- 7) = ''-7''" "printf_d 0 = ''0''"
    "printf_d 2147483647 = ''2147483647''" "printf_d (- 2147483648) = ''-2147483648''"
    "printf_d 305 = ''305''"
    by (simp_all add: printf_d_def dec)
  have tN: "matrix_text ?N = ?T"
    by (simp add: matrix_text_def row_text_def upt_conv_Cons pr)
  have bN: "table ?N = [[12, - 7, 0], [2147483647, - 2147483648, 305]]"
    by (simp add: table_def upt_conv_Cons)
  have p: "ClassificationList ?P =
      [[\<lparr>subsampleNumber = 1, patchIndex = 0, classification = ''RBC''\<rparr>,
        \<lparr>subsampleNumber = 1, patchIndex = 1, classification = ''DRBC''\<rparr>,
        \<lparr>subsampleNumber = 1, patchIndex = 2, classification = ''RBC''\<rparr>]]"
    by (simp add: SubsampleClassifications_def ClassificationList_def istream_of_def
      ClassificationList_loop.simps extract_char_def getline_def good_def isspace_def
      trim_left_def)
  have a: "ClassificationList ?A =
      [[\<lparr>subsampleNumber = 1, patchIndex = 0, classification = ''RBC''\<rparr>,
        \<lparr>subsampleNumber = 1, patchIndex = 1, classification = ''RBC''\<rparr>,
        \<lparr>subsampleNumber = 1, patchIndex = 2, classification = ''RBC''\<rparr>]]"
    by (simp add: SubsampleClassifications_def ClassificationList_def istream_of_def
      ClassificationList_loop.simps extract_char_def getline_def good_def isspace_def
      trim_left_def)
  have n: "3 = min
      (length [\<lparr>subsampleNumber = 1, patchIndex = 0, classification = ''RBC''\<rparr>,
        \<lparr>subsampleNumber = 1, patchIndex = 1, classification = ''DRBC''\<rparr>,
        \<lparr>subsampleNumber = 1, patchIndex = 2, classification = ''RBC''\<rparr>])
      (length [\<lparr>subsampleNumber = 1, patchIndex = 0, classification = ''RBC''\<rparr>,
        \<lparr>subsampleNumber = 1, patchIndex = 1, classification = ''RBC''\<rparr>,
        \<lparr>subsampleNumber = 1, patchIndex = 2, classification = ''RBC''\<rparr>])"
    by simp
  have b: "(3 :: nat) < 2 ^ 31" by simp
  have c: "add_counts (Matrix 26 26)
      (pairs [\<lparr>subsampleNumber = 1, patchIndex = 0, classification = ''RBC''\<rparr>,
        \<lparr>subsampleNumber = 1, patchIndex = 1, classification = ''DRBC''\<rparr>,
        \<lparr>subsampleNumber = 1, patchIndex = 2, classification = ''RBC''\<rparr>]
       [\<lparr>subsampleNumber = 1, patchIndex = 0, classification = ''RBC''\<rparr>,
        \<lparr>subsampleNumber = 1, patchIndex = 1, classification = ''RBC''\<rparr>,
        \<lparr>subsampleNumber = 1, patchIndex = 2, classification = ''RBC''\<rparr>] 3) = ?M"
    by (auto simp: add_counts_def pairs_def pclindex_def aclindex_def Matrix_def fun_eq_iff
      upt_conv_Cons)
  have m: "WriteSort_conmatrix (ClassificationList ?P) (ClassificationList ?A) 1 =
      Some (Returns ?M)"
    using WriteSort_conmatrix_run [OF subsample_single subsample_single n b] c
    by (simp add: p a)
  have rep: "concat (replicate 26 [CHR ''0'', CHR 0x09]) =
      [CHR ''0'', CHR 0x09] @ concat (replicate 25 [CHR ''0'', CHR 0x09])"
    by (simp add: numeral_eq_Suc)
  have r0: "row_text ?M 0 =
      ''2'' @ [CHR 0x09] @ concat (replicate 25 [CHR ''0'', CHR 0x09]) @ [CHR 0x0A]"
    using row_text_first_column [of ?M 0] by (simp add: printf_d_small)
  have r1: "row_text ?M 1 =
      ''1'' @ [CHR 0x09] @ concat (replicate 25 [CHR ''0'', CHR 0x09]) @ [CHR 0x0A]"
    using row_text_first_column [of ?M 1] by (simp add: printf_d_small)
  have rz: "row_text ?M i = ?Z" if "2 \<le> i" for i
    using row_text_first_column [of ?M i] that by (simp add: printf_d_small rep)
  have tM: "matrix_text ?M = ?L"
    using matrix_text_first_rows [of 2 ?M ?Z, OF rz] r1
    by (simp add: upt_conv_Cons r0)
  have bM: "table ?M =
      (2 # replicate 25 0) # (1 # replicate 25 0) # replicate 24 (replicate 26 0)"
    by (auto simp: table_def nth_Cons' intro!: nth_equalityI)
  have w: "WriteSort ?P ?A 1 (Some fp) = Some (Returns (fp @ ?L))" for fp
    by (simp add: WriteSort_def m WriteSort_write_def fprintf_matrix_text tM)
  note N = C10_rows_appended [of "''old''" ?N]
  note M = C10_rows_appended [of "''old''" ?M _ ?P ?A 1 "''old'' @ ?L" ?P ?A 1 "''old'' @ ?L @ ?L"]
  from N have f1: "WriteSort_write (Some ''old'') ?N = Returns (''old'' @ ?T)"
    by (simp only: tN)
  from N have f2: "read_table ?T = Some [[12, - 7, 0], [2147483647, - 2147483648, 305]]"
    by (simp only: tN bN)
  from M have f3: "read_table ?L =
      Some ((2 # replicate 25 0) # (1 # replicate 25 0) # replicate 24 (replicate 26 0))"
    by (simp only: tM bM)
  from M have f4: "length (filter (\<lambda>c. c = CHR 0x0A) ?L) = 26"
    by (simp only: tM) simp
  from f1 f2 f3 f4 w [of "''old''"] w [of "''old'' @ ?L"] show ?thesis
    by (simp only: append_assoc simp_thms)
qed

end
